theory Spec2Isabelle
  imports Complex_Main
begin

section \<open>JavaScript values used by the toolkit\<close>

text \<open>
  The toolkit works on \<open>Uint8ClampedArray\<close> pixel buffers (interleaved RGBA, four bytes
  per pixel), \<open>Uint32Array\<close> histograms and JavaScript numbers. A typed array is a list of
  naturals; a JavaScript number is a \<open>real\<close>, with \<open>None\<close> of \<open>real option\<close> for
  \<open>NaN\<close> where a computation can produce it. Where a number ends in a byte or in the
  index of a histogram bin, the sums, products, quotients and square roots before it are
  the exact real ones. Where a number is
  compared with a threshold the caller chooses, or multiplied by a factor the caller
  chooses, every operation is rounded as the engine rounds it: this is the case of the clip
  limit of \<open>clipHistogram\<close> and of the magnitude array of \<open>sobelWithGradient\<close>.
  Image dimensions and the grid size are naturals, the domain the interface gives them.
\<close>

datatype error =
    InvalidInput string   \<comment> \<open>\<open>throw new Error(message)\<close> of a parameter check\<close>
  | TypeError             \<comment> \<open>raised by the engine, e.g. reading \<open>length\<close> of \<open>null\<close>\<close>

text \<open>Reading \<open>a[i]\<close> of a typed array: \<open>undefined\<close> (here \<open>None\<close>) out of range.\<close>

definition item :: "nat list \<Rightarrow> nat \<Rightarrow> nat option" where
  "item a i = (if i < length a then Some (a ! i) else None)"

text \<open>
  Writing \<open>a[i] = v\<close> to a typed array is \<open>a[i := v]\<close>: like the list update of HOL, a
  write out of range changes nothing.
\<close>

text \<open>\<open>Math.round\<close>: the nearest integer, a tie going up.\<close>

definition js_round :: "real \<Rightarrow> int" where
  "js_round x = \<lfloor>x + 1 / 2\<rfloor>"

text \<open>
  The nearest integer, a tie going to the even one, and with it the rounding of a real to a
  binary floating-point number of \<open>p\<close> significant bits whose least normal exponent is
  \<open>emin\<close>: below \<open>2 ^ emin\<close> the spacing stays that of the least binade (subnormal
  numbers). The overflow to \<open>Infinity\<close> is left out: the magnitudes that are rounded
  stay below \<open>2 ^ 11\<close>, and a clip limit so large that its product overflows is above
  every bin, as the finite number is that the model has in its place. A zero has no sign.
  A JavaScript number is a \<open>float64\<close>; a \<open>Float32Array\<close> stores a \<open>float32\<close>
  (\<open>Math.fround\<close>).
\<close>

definition round_ties_even :: "real \<Rightarrow> int" where
  "round_ties_even x =
     (let f = \<lfloor>x\<rfloor> in
      if x < of_int f + 1 / 2 then f
      else if of_int f + 1 / 2 < x then f + 1
      else if even f then f else f + 1)"

definition float_round :: "nat \<Rightarrow> int \<Rightarrow> real \<Rightarrow> real" where
  "float_round p emin x =
     (if x = 0 then 0
      else let e = max emin \<lfloor>log 2 \<bar>x\<bar>\<rfloor>;
               ulp = 2 powi (e - int p + 1)
           in of_int (round_ties_even (x / ulp)) * ulp)"

definition float64 :: "real \<Rightarrow> real" where
  "float64 = float_round 53 (- 1022)"

definition float32 :: "real \<Rightarrow> real" where
  "float32 = float_round 24 (- 126)"

text \<open>
  Storing a number into a \<open>Uint8ClampedArray\<close> (\<open>ToUint8Clamp\<close>): clamp to \<open>[0, 255]\<close>,
  round to the nearest integer, a tie going to the even one; \<open>NaN\<close> is stored as 0.
\<close>

definition to_uint8_clamp :: "real \<Rightarrow> nat" where
  "to_uint8_clamp x =
     (if x \<le> 0 then 0
      else if 255 \<le> x then 255
      else let f = \<lfloor>x\<rfloor> in
        if of_int f + 1 / 2 < x then nat (f + 1)
        else if x < of_int f + 1 / 2 then nat f
        else if even f then nat f else nat (f + 1))"

definition store8 :: "real option \<Rightarrow> nat" where
  "store8 v = (case v of None \<Rightarrow> 0 | Some x \<Rightarrow> to_uint8_clamp x)"

text \<open>Storing an integer into a \<open>Uint32Array\<close> (\<open>ToUint32\<close>): modulo \<open>2^32\<close>.\<close>

definition to_uint32 :: "int \<Rightarrow> nat" where
  "to_uint32 x = nat (x mod 2 ^ 32)"

text \<open>The values \<open>i = 0, 4, 8, ...\<close> of a loop \<open>for (i = 0; i < n; i += 4)\<close>.\<close>

definition by4 :: "nat \<Rightarrow> nat list" where
  "by4 n = map (\<lambda>k. 4 * k) [0..<(n + 3) div 4]"

text \<open>The luma of the pixel starting at \<open>idx\<close>: \<open>NaN\<close> when a channel is out of range.\<close>

definition luma :: "nat list \<Rightarrow> nat \<Rightarrow> real option" where
  "luma pixels idx =
     (case (item pixels idx, item pixels (idx + 1), item pixels (idx + 2)) of
        (Some r, Some g, Some b) \<Rightarrow>
          Some (real r * 0.299 + real g * 0.587 + real b * 0.114)
      | _ \<Rightarrow> None)"

text \<open>
  \<open>histogram[k] += 1\<close> on a \<open>Uint32Array\<close>, and \<open>histogram[Math.round(gray)] += 1\<close>:
  nothing happens when the index is \<open>NaN\<close>, negative or beyond the array (the list
  update of HOL ignores an index beyond the list as well).
\<close>

definition incr :: "nat list \<Rightarrow> nat \<Rightarrow> nat list" where
  "incr histogram k = histogram[k := to_uint32 (int (histogram ! k) + 1)]"

definition bump :: "nat list \<Rightarrow> real option \<Rightarrow> nat list" where
  "bump histogram gray =
     (case gray of
        None \<Rightarrow> histogram
      | Some g \<Rightarrow>
          let k = js_round g in
          if 0 \<le> k then incr histogram (nat k) else histogram)"

text \<open>
  A number that may be infinite: the quotient of the lookup-table normalisation, which the
  source computes without looking at its divisor.
\<close>

datatype number = Finite real | PosInfinity | NegInfinity | NaN

definition js_divide :: "real \<Rightarrow> real \<Rightarrow> number" where
  "js_divide a b =
     (if b = 0 then (if a = 0 then NaN else if 0 < a then PosInfinity else NegInfinity)
      else Finite (a / b))"

text \<open>\<open>Math.round(q * 255)\<close> stored into a \<open>Uint8ClampedArray\<close>.\<close>

definition round255 :: "number \<Rightarrow> nat" where
  "round255 q =
     (case q of
        Finite x \<Rightarrow> to_uint8_clamp (of_int (js_round (x * 255)))
      | PosInfinity \<Rightarrow> 255
      | NegInfinity \<Rightarrow> 0
      | NaN \<Rightarrow> 0)"

text \<open>\<open>result[i] = table[pixels[j]]\<close> and \<open>result[i] = pixels[j]\<close> on byte arrays.\<close>

definition lookup8 :: "nat list \<Rightarrow> nat option \<Rightarrow> nat" where
  "lookup8 table p =
     (case p of None \<Rightarrow> 0
      | Some v \<Rightarrow> store8 (map_option real (item table v)))"

definition copy8 :: "nat option \<Rightarrow> nat" where
  "copy8 p = store8 (map_option real p)"

text \<open>A loop whose body may throw stops at the first exception.\<close>

fun for_each :: "'i list \<Rightarrow> ('i \<Rightarrow> 's \<Rightarrow> error + 's) \<Rightarrow> 's \<Rightarrow> error + 's" where
  "for_each [] body s = Inr s"
| "for_each (i # is) body s =
     (case body i s of Inl e \<Rightarrow> Inl e | Inr s' \<Rightarrow> for_each is body s')"

section \<open>Histogram module\<close>

subsection \<open>getHistogram\<close>

definition getHistogram_loop :: "nat list \<Rightarrow> nat \<Rightarrow> nat list" where
  "getHistogram_loop pixels n =
     fold (\<lambda>i histogram. let idx = i * 4 in bump histogram (luma pixels idx))
       [0..<n] (replicate 256 0)"

definition getHistogram :: "nat list option \<Rightarrow> nat option \<Rightarrow> nat option \<Rightarrow> error + nat list" where
  "getHistogram pixels width height =
     (case (pixels, width, height) of
        (Some px, Some w, Some h) \<Rightarrow> Inr (getHistogram_loop px (w * h))
      | _ \<Rightarrow> Inl (InvalidInput ''Invalid histogram parameters''))"

subsection \<open>The cumulative distribution and the lookup table\<close>

text \<open>
  \<open>cdf[0] = histogram[0]; for (i = 1; i < 256; i += 1) cdf[i] = cdf[i - 1] + histogram[i]\<close>
  on \<open>Uint32Array\<close>s, as both \<open>equalize\<close> and \<open>calculateLUT\<close> have it. A missing histogram
  entry is \<open>undefined\<close>, the sum \<open>NaN\<close> and the stored value 0.
\<close>

definition cumulative :: "nat list \<Rightarrow> nat list" where
  "cumulative histogram =
     fold (\<lambda>i cdf. cdf[i := (case item histogram i of None \<Rightarrow> 0
                               | Some v \<Rightarrow> to_uint32 (int (cdf ! (i - 1)) + int v))])
       [1..<256]
       ((replicate 256 0)[0 := (case item histogram 0 of None \<Rightarrow> 0
                                | Some v \<Rightarrow> to_uint32 (int v))])"

text \<open>
  \<open>for (i = 0; i < 256; i += 1)
     table[i] = Math.round(((cdf[i] - cdfMin) / (numPixels - cdfMin)) * 255)\<close>
  The quotient is taken whatever the divisor.
\<close>

definition quotient :: "nat list \<Rightarrow> nat \<Rightarrow> nat \<Rightarrow> nat \<Rightarrow> number" where
  "quotient cdf cdfMin numPixels i =
     js_divide (real (cdf ! i) - real cdfMin) (real numPixels - real cdfMin)"

definition normalise :: "nat list \<Rightarrow> nat \<Rightarrow> nat \<Rightarrow> nat list" where
  "normalise cdf cdfMin numPixels =
     fold (\<lambda>i table. table[i := round255 (quotient cdf cdfMin numPixels i)])
       [0..<256] (replicate 256 0)"

definition calculateLUT :: "nat list \<Rightarrow> nat list" where
  "calculateLUT histogram =
     (let cdf = cumulative histogram;
          numPixels = cdf ! 255;
          cdfMin = cdf ! 0
      in normalise cdf cdfMin numPixels)"

subsection \<open>equalize\<close>

definition equalize_body :: "nat list \<Rightarrow> nat \<Rightarrow> nat \<Rightarrow> nat list" where
  "equalize_body pixels width height =
     (let gray = fold (\<lambda>i gray. let idx = i * 4 in gray[i := store8 (luma pixels idx)])
                   [0..<width * height] (replicate (width * height) 0);
          histogram = fold (\<lambda>i histogram. incr histogram (gray ! i))
                        [0..<length gray] (replicate 256 0);
          cdf = cumulative histogram;
          cdfMin = cdf ! 0;
          numPixels = width * height;
          pdfNorm = normalise cdf cdfMin numPixels
      in fold (\<lambda>i result.
            result[i := lookup8 pdfNorm (item pixels i),
                   i + 1 := lookup8 pdfNorm (item pixels (i + 1)),
                   i + 2 := lookup8 pdfNorm (item pixels (i + 2)),
                   i + 3 := copy8 (item pixels (i + 3))])
           (by4 (length pixels)) (replicate (length pixels) 0))"

definition equalize :: "nat list option \<Rightarrow> nat option \<Rightarrow> nat option \<Rightarrow> error + nat list" where
  "equalize pixels width height =
     (case (pixels, width, height) of
        (Some px, Some w, Some h) \<Rightarrow> Inr (equalize_body px w h)
      | _ \<Rightarrow> Inl (InvalidInput ''Invalid equalization parameters''))"

subsection \<open>CLAHE\<close>

definition getTileHistogram :: "nat list \<Rightarrow> nat \<Rightarrow> nat \<Rightarrow> nat \<Rightarrow> nat \<Rightarrow> nat \<Rightarrow> nat list" where
  "getTileHistogram pixels width x1 y1 x2 y2 =
     fold (\<lambda>y. fold (\<lambda>x histogram.
             let idx = (y * width + x) * 4 in bump histogram (luma pixels idx))
           [x1..<x2])
       [y1..<y2] (replicate 256 0)"

text \<open>
  \<open>clipHistogram\<close> returns nothing and overwrites the array it is given; the model returns
  the contents of that array after the call. \<open>reduce\<close> without an initial value throws a
  \<open>TypeError\<close> on an empty array. The sum of the bins is an integer and exact (below
  \<open>2 ^ 53\<close> for any array that fits in memory); the quotient by \<open>numBins\<close> and the product
  with \<open>clipLimit\<close>, itself a double, are rounded to double precision before \<open>Math.round\<close>.
\<close>

definition clip_limit :: "nat list \<Rightarrow> real \<Rightarrow> int" where
  "clip_limit histogram clipLimit =
     (let numBins = length histogram;
          avgBinValue = float64 (real (sum_list histogram) / real numBins)
      in js_round (float64 (clipLimit * avgBinValue)))"

definition clipHistogram :: "nat list \<Rightarrow> real \<Rightarrow> error + nat list" where
  "clipHistogram histogram clipLimit =
     (if histogram = [] then Inl TypeError
      else
        let numBins = length histogram;
            limit = clip_limit histogram clipLimit
        in Inr (fold (\<lambda>i histogram.
                  if int (histogram ! i) > limit then histogram[i := to_uint32 limit]
                  else histogram)
                [0..<numBins] histogram))"

text \<open>
  The tile size \<open>Math.ceil(width / gridSize)\<close>. With \<open>gridSize = 0\<close> the quotient is
  \<open>Infinity\<close> or \<open>NaN\<close>, and no tile is visited that would use it.
\<close>

definition tile_size :: "nat \<Rightarrow> nat \<Rightarrow> nat" where
  "tile_size extent gridSize = nat \<lceil>real extent / real gridSize\<rceil>"

text \<open>The rectangle \<open>(x1, y1, x2, y2)\<close> of the tile in column \<open>tileX\<close> and row \<open>tileY\<close>.\<close>

definition tile_bounds :: "nat \<Rightarrow> nat \<Rightarrow> nat \<Rightarrow> nat \<Rightarrow> nat \<Rightarrow> nat \<times> nat \<times> nat \<times> nat" where
  "tile_bounds width height gridSize tileX tileY =
     (let tileWidth = tile_size width gridSize;
          tileHeight = tile_size height gridSize;
          x1 = tileX * tileWidth;
          y1 = tileY * tileHeight;
          x2 = min ((tileX + 1) * tileWidth) width;
          y2 = min ((tileY + 1) * tileHeight) height
      in (x1, y1, x2, y2))"

text \<open>
  The pixels that the loops \<open>for (y = y1; y < y2; y += 1) for (x = x1; x < x2; x += 1)\<close>
  of a tile visit.
\<close>

definition in_tile :: "nat \<times> nat \<times> nat \<times> nat \<Rightarrow> nat \<Rightarrow> nat \<Rightarrow> bool" where
  "in_tile tile x y = (case tile of (x1, y1, x2, y2) \<Rightarrow> x1 \<le> x \<and> x < x2 \<and> y1 \<le> y \<and> y < y2)"

text \<open>
  The lookup table of a tile: its histogram, clipped (\<open>clipHistogram\<close> overwrites
  \<open>tileHistogram\<close>), then \<open>calculateLUT\<close>.
\<close>

definition tile_lut :: "nat list \<Rightarrow> nat \<Rightarrow> real \<Rightarrow> nat \<times> nat \<times> nat \<times> nat \<Rightarrow> error + nat list" where
  "tile_lut pixels width clipLimit tile =
     (case tile of (x1, y1, x2, y2) \<Rightarrow>
        let tileHistogram = getTileHistogram pixels width x1 y1 x2 y2
        in (case clipHistogram tileHistogram clipLimit of
              Inl e \<Rightarrow> Inl e
            | Inr tileHistogram \<Rightarrow> Inr (calculateLUT tileHistogram)))"

text \<open>The loops that apply the lookup table of a tile to the pixels of the tile.\<close>

definition apply_lut ::
    "nat list \<Rightarrow> nat \<Rightarrow> nat list \<Rightarrow> nat \<times> nat \<times> nat \<times> nat \<Rightarrow> nat list \<Rightarrow> nat list" where
  "apply_lut pixels width lut tile result =
     (case tile of (x1, y1, x2, y2) \<Rightarrow>
        fold (\<lambda>y. fold (\<lambda>x result.
                let idx = (y * width + x) * 4
                in result[idx := lookup8 lut (item pixels idx),
                          idx + 1 := lookup8 lut (item pixels (idx + 1)),
                          idx + 2 := lookup8 lut (item pixels (idx + 2)),
                          idx + 3 := copy8 (item pixels (idx + 3))])
              [x1..<x2])
          [y1..<y2] result)"

definition clahe_body :: "nat list \<Rightarrow> nat \<Rightarrow> nat \<Rightarrow> real \<Rightarrow> nat \<Rightarrow> error + nat list" where
  "clahe_body pixels width height clipLimit gridSize =
     for_each [0..<gridSize] (\<lambda>tileY.
       for_each [0..<gridSize] (\<lambda>tileX result.
         let tile = tile_bounds width height gridSize tileX tileY
         in case tile_lut pixels width clipLimit tile of
              Inl e \<Rightarrow> Inl e
            | Inr lut \<Rightarrow> Inr (apply_lut pixels width lut tile result)))
       (replicate (length pixels) 0)"

definition clahe ::
    "nat list option \<Rightarrow> nat \<Rightarrow> nat \<Rightarrow> real option \<Rightarrow> nat option \<Rightarrow> error + nat list" where
  "clahe pixels width height clipLimit gridSize =
     (case (pixels, clipLimit, gridSize) of
        (Some px, Some cl, Some g) \<Rightarrow> clahe_body px width height cl g
      | _ \<Rightarrow> Inl (InvalidInput ''Invalid CLAHE parameters''))"

subsection \<open>gammaCorrection\<close>

definition gammaCorrection :: "nat list option \<Rightarrow> real option \<Rightarrow> error + nat list" where
  "gammaCorrection pixels gamma =
     (case (pixels, gamma) of
        (Some px, Some gm) \<Rightarrow>
          if gm \<le> 0 then Inl (InvalidInput ''Invalid gamma value'')
          else
            let invGamma = 1 / gm;
                table = fold (\<lambda>i table. table[i :=
                          to_uint8_clamp (of_int (js_round ((real i / 255) powr invGamma * 255)))])
                        [0..<256] (replicate 256 0)
            in Inr (fold (\<lambda>i result.
                      result[i := lookup8 table (item px i),
                             i + 1 := lookup8 table (item px (i + 1)),
                             i + 2 := lookup8 table (item px (i + 2)),
                             i + 3 := copy8 (item px (i + 3))])
                    (by4 (length px)) (replicate (length px) 0))
      | _ \<Rightarrow> Inl (InvalidInput ''Invalid gamma value''))"

subsection \<open>sigmoidContrast\<close>

text \<open>
  One colour channel of \<open>sigmoidContrast\<close>. The value read is divided by 255 only in the two
  branches for a non-zero contrast; it is multiplied by 255 in every case.
\<close>

definition sigmoid_channel :: "real \<Rightarrow> real \<Rightarrow> nat option \<Rightarrow> nat" where
  "sigmoid_channel contrast factor p =
     store8 (map_option
       (\<lambda>v. let value = (if contrast > 0 then (real v / 255) * factor
                          else if contrast < 0 then (real v / 255) / factor
                          else real v)
            in max 0 (min 255 (of_int (js_round (value * 255))))) p)"

definition sigmoidContrast :: "nat list option \<Rightarrow> real option \<Rightarrow> error + nat list" where
  "sigmoidContrast pixels contrast =
     (case contrast of
        None \<Rightarrow> Inl (InvalidInput ''Contrast must be between -1 and 1'')
      | Some c \<Rightarrow>
          if c < - 1 \<or> c > 1 then Inl (InvalidInput ''Contrast must be between -1 and 1'')
          else (case pixels of
                  None \<Rightarrow> Inl TypeError
                | Some px \<Rightarrow>
                    let factor = exp (\<bar>c\<bar> * 4) in
                    Inr (fold (\<lambda>i result.
                           (fold (\<lambda>ch result. result[i + ch := sigmoid_channel c factor (item px (i + ch))])
                              [0..<3] result)
                             [i + 3 := copy8 (item px (i + 3))])
                         (by4 (length px)) (replicate (length px) 0))))"

section \<open>Edge detection module\<close>

text \<open>
  The grey value \<open>(pixels[idx] + pixels[idx + 1] + pixels[idx + 2]) / 3\<close> that every
  operator of this module samples.
\<close>

definition mean_gray :: "nat list \<Rightarrow> nat \<Rightarrow> real option" where
  "mean_gray pixels idx =
     (case (item pixels idx, item pixels (idx + 1), item pixels (idx + 2)) of
        (Some r, Some g, Some b) \<Rightarrow> Some ((real r + real g + real b) / 3)
      | _ \<Rightarrow> None)"

text \<open>Arithmetic that passes \<open>NaN\<close> on.\<close>

definition nan_add :: "real option \<Rightarrow> real option \<Rightarrow> real option" where
  "nan_add a b = (case (a, b) of (Some x, Some y) \<Rightarrow> Some (x + y) | _ \<Rightarrow> None)"

definition nan_mul :: "real option \<Rightarrow> real option \<Rightarrow> real option" where
  "nan_mul a b = (case (a, b) of (Some x, Some y) \<Rightarrow> Some (x * y) | _ \<Rightarrow> None)"

text \<open>\<open>kernel[k]\<close> of a plain array: \<open>undefined\<close>, in arithmetic \<open>NaN\<close>, out of range.\<close>

definition coeff :: "real list \<Rightarrow> int \<Rightarrow> real option" where
  "coeff ks k = (if 0 \<le> k \<and> nat k < length ks then Some (ks ! nat k) else None)"

text \<open>
  The two sums over the 3x3 neighbourhood of row \<open>i\<close>, column \<open>j\<close>, as \<open>applyGradient\<close> and
  \<open>sobelWithGradient\<close> accumulate them.
\<close>

definition gradient_sums ::
    "nat list \<Rightarrow> nat \<Rightarrow> real list \<Rightarrow> real list \<Rightarrow> nat \<Rightarrow> nat \<Rightarrow> real option \<times> real option" where
  "gradient_sums pixels width gx gy i j =
     fold (\<lambda>ki. fold (\<lambda>kj (sumGx, sumGy).
             let idx = nat ((int i + ki) * int width + (int j + kj)) * 4;
                 gray = mean_gray pixels idx
             in (nan_add sumGx (nan_mul gray (coeff gx ((ki + 1) * 3 + (kj + 1)))),
                 nan_add sumGy (nan_mul gray (coeff gy ((ki + 1) * 3 + (kj + 1))))))
           [- 1, 0, 1])
       [- 1, 0, 1] (Some 0, Some 0)"

definition magnitude_of :: "real option \<times> real option \<Rightarrow> real option" where
  "magnitude_of sumG =
     (case sumG of (sumGx, sumGy) \<Rightarrow>
        map_option sqrt (nan_add (nan_mul sumGx sumGx) (nan_mul sumGy sumGy)))"

definition applyGradient :: "nat list \<Rightarrow> nat \<Rightarrow> nat \<Rightarrow> real list \<Rightarrow> real list \<Rightarrow> nat list" where
  "applyGradient pixels width height gx gy =
     fold (\<lambda>i. fold (\<lambda>j result.
             let magnitude = magnitude_of (gradient_sums pixels width gx gy i j);
                 clipped = map_option (\<lambda>m. max 0 (min 255 m)) magnitude;
                 idx = (i * width + j) * 4
             in result[idx := store8 clipped,
                       idx + 1 := store8 clipped,
                       idx + 2 := store8 clipped,
                       idx + 3 := copy8 (item pixels (idx + 3))])
           [1..<width - 1])
       [1..<height - 1] (replicate (length pixels) 0)"

definition sobel_gx :: "real list" where
  "sobel_gx = [- 1, 0, 1, - 2, 0, 2, - 1, 0, 1]"

definition sobel_gy :: "real list" where
  "sobel_gy = [- 1, - 2, - 1, 0, 0, 0, 1, 2, 1]"

definition prewitt_gx :: "real list" where
  "prewitt_gx = [- 1, 0, 1, - 1, 0, 1, - 1, 0, 1]"

definition prewitt_gy :: "real list" where
  "prewitt_gy = [- 1, - 1, - 1, 0, 0, 0, 1, 1, 1]"

definition sobel :: "nat list option \<Rightarrow> nat option \<Rightarrow> nat option \<Rightarrow> error + nat list" where
  "sobel pixels width height =
     (case (pixels, width, height) of
        (Some px, Some w, Some h) \<Rightarrow> Inr (applyGradient px w h sobel_gx sobel_gy)
      | _ \<Rightarrow> Inl (InvalidInput ''Invalid edge detection parameters''))"

definition prewitt :: "nat list option \<Rightarrow> nat option \<Rightarrow> nat option \<Rightarrow> error + nat list" where
  "prewitt pixels width height =
     (case (pixels, width, height) of
        (Some px, Some w, Some h) \<Rightarrow> Inr (applyGradient px w h prewitt_gx prewitt_gy)
      | _ \<Rightarrow> Inl (InvalidInput ''Invalid edge detection parameters''))"

definition laplacian_kernel :: "real list" where
  "laplacian_kernel = [0, - 1, 0, - 1, 4, - 1, 0, - 1, 0]"

definition laplacian_value :: "nat list \<Rightarrow> nat \<Rightarrow> nat \<Rightarrow> nat \<Rightarrow> real option" where
  "laplacian_value pixels width i j =
     fold (\<lambda>ki. fold (\<lambda>kj value.
             let idx = nat ((int i + ki) * int width + (int j + kj)) * 4;
                 gray = mean_gray pixels idx
             in nan_add value (nan_mul gray (coeff laplacian_kernel ((ki + 1) * 3 + (kj + 1)))))
           [- 1, 0, 1])
       [- 1, 0, 1] (Some 0)"

definition laplacian_body :: "nat list \<Rightarrow> nat \<Rightarrow> nat \<Rightarrow> nat list" where
  "laplacian_body pixels width height =
     fold (\<lambda>i. fold (\<lambda>j result.
             let value = laplacian_value pixels width i j;
                 idx = (i * width + j) * 4;
                 clipped = map_option (\<lambda>v. max 0 (min 255 \<bar>v\<bar>)) value
             in result[idx := store8 clipped,
                       idx + 1 := store8 clipped,
                       idx + 2 := store8 clipped,
                       idx + 3 := copy8 (item pixels (idx + 3))])
           [1..<width - 1])
       [1..<height - 1] (replicate (length pixels) 0)"

definition laplacian :: "nat list option \<Rightarrow> nat option \<Rightarrow> nat option \<Rightarrow> error + nat list" where
  "laplacian pixels width height =
     (case (pixels, width, height) of
        (Some px, Some w, Some h) \<Rightarrow> Inr (laplacian_body px w h)
      | _ \<Rightarrow> Inl (InvalidInput ''Invalid edge detection parameters''))"

subsection \<open>Canny\<close>

text \<open>The 3x3 box blur with clamped coordinates; \<open>count\<close> is 9 after the two inner loops.\<close>

definition blur_sums ::
    "nat list \<Rightarrow> nat \<Rightarrow> nat \<Rightarrow> nat \<Rightarrow> nat \<Rightarrow> real option \<times> real option \<times> real option \<times> real" where
  "blur_sums pixels width height i j =
     fold (\<lambda>ki. fold (\<lambda>kj (r, g, b, count).
             let yi = min (int height - 1) (max 0 (int i + ki));
                 xi = min (int width - 1) (max 0 (int j + kj));
                 idx = nat (yi * int width + xi) * 4
             in (nan_add r (map_option real (item pixels idx)),
                 nan_add g (map_option real (item pixels (idx + 1))),
                 nan_add b (map_option real (item pixels (idx + 2))),
                 count + 1))
           [- 1, 0, 1])
       [- 1, 0, 1] (Some 0, Some 0, Some 0, 0)"

definition gaussianBlur :: "nat list \<Rightarrow> nat \<Rightarrow> nat \<Rightarrow> nat list" where
  "gaussianBlur pixels width height =
     fold (\<lambda>i. fold (\<lambda>j result.
             case blur_sums pixels width height i j of (r, g, b, count) \<Rightarrow>
               let idx = (i * width + j) * 4
               in result[idx := store8 (map_option (\<lambda>v. of_int (js_round (v / count))) r),
                         idx + 1 := store8 (map_option (\<lambda>v. of_int (js_round (v / count))) g),
                         idx + 2 := store8 (map_option (\<lambda>v. of_int (js_round (v / count))) b),
                         idx + 3 := copy8 (item pixels (idx + 3))])
           [0..<width])
       [0..<height] (replicate (length pixels) 0)"

text \<open>
  \<open>sobelWithGradient\<close> fills a magnitude and a direction array; \<open>canny\<close> reads the magnitude
  only, and only the magnitude is modelled. \<open>canny\<close> compares a magnitude with thresholds that
  may lie anywhere, so the numbers are here the ones the engine computes: the grey value,
  each product, each sum, the squares and the square root are rounded to double precision
  (\<open>Math.sqrt\<close> taken as correctly rounded, as the engines have it), and the array is a
  \<open>Float32Array\<close>, zero at the start, that rounds what is stored to single precision.
\<close>

definition rounded :: "real option \<Rightarrow> real option" where
  "rounded v = map_option float64 v"

definition gradient_sums_float64 ::
    "nat list \<Rightarrow> nat \<Rightarrow> real list \<Rightarrow> real list \<Rightarrow> nat \<Rightarrow> nat \<Rightarrow> real option \<times> real option" where
  "gradient_sums_float64 pixels width gx gy i j =
     fold (\<lambda>ki. fold (\<lambda>kj (sumGx, sumGy).
             let idx = nat ((int i + ki) * int width + (int j + kj)) * 4;
                 gray = rounded (mean_gray pixels idx)
             in (rounded (nan_add sumGx (rounded (nan_mul gray (coeff gx ((ki + 1) * 3 + (kj + 1)))))),
                 rounded (nan_add sumGy (rounded (nan_mul gray (coeff gy ((ki + 1) * 3 + (kj + 1))))))))
           [- 1, 0, 1])
       [- 1, 0, 1] (Some 0, Some 0)"

definition magnitude_float64 :: "real option \<times> real option \<Rightarrow> real option" where
  "magnitude_float64 sumG =
     (case sumG of (sumGx, sumGy) \<Rightarrow>
        rounded (map_option sqrt
          (rounded (nan_add (rounded (nan_mul sumGx sumGx)) (rounded (nan_mul sumGy sumGy))))))"

definition sobelWithGradient :: "nat list \<Rightarrow> nat \<Rightarrow> nat \<Rightarrow> real option list" where
  "sobelWithGradient pixels width height =
     fold (\<lambda>i. fold (\<lambda>j magnitude.
             let sumG = gradient_sums_float64 pixels width sobel_gx sobel_gy i j;
                 idx = i * width + j
             in magnitude[idx := map_option float32 (magnitude_float64 sumG)])
           [1..<width - 1])
       [1..<height - 1] (replicate (width * height) (Some 0))"

text \<open>A comparison \<open>a > b\<close> with \<open>NaN\<close> on the left is false.\<close>

definition exceeds :: "real option \<Rightarrow> real \<Rightarrow> bool" where
  "exceeds a b = (case a of None \<Rightarrow> False | Some x \<Rightarrow> x > b)"

definition canny_body :: "nat list \<Rightarrow> nat \<Rightarrow> nat \<Rightarrow> real \<Rightarrow> real \<Rightarrow> nat list" where
  "canny_body pixels width height lowThreshold highThreshold =
     (let blurred = gaussianBlur pixels width height;
          magnitude = sobelWithGradient blurred width height
      in fold (\<lambda>i result.
            let mag = magnitude ! i in
            if exceeds mag highThreshold
            then result[i * 4 := 255, i * 4 + 1 := 255, i * 4 + 2 := 255, i * 4 + 3 := 255]
            else if exceeds mag lowThreshold
            then result[i * 4 := 128, i * 4 + 1 := 128, i * 4 + 2 := 128, i * 4 + 3 := 255]
            else result)
          [0..<length magnitude] (replicate (length pixels) 0))"

definition canny ::
    "nat list option \<Rightarrow> nat option \<Rightarrow> nat option \<Rightarrow> real \<Rightarrow> real \<Rightarrow> error + nat list" where
  "canny pixels width height lowThreshold highThreshold =
     (case (pixels, width, height) of
        (Some px, Some w, Some h) \<Rightarrow> Inr (canny_body px w h lowThreshold highThreshold)
      | _ \<Rightarrow> Inl (InvalidInput ''Invalid edge detection parameters''))"

section \<open>The gradient operators as the specification describes them\<close>

text \<open>
  The specification describes Sobel and Prewitt as a 3x3 convolution of a grey image with a
  pair of kernels, the magnitude \<open>sqrt(Gx^2 + Gy^2)\<close> clamped to \<open>[0, 255]\<close>. The
  following definitions state that reading for a pixel \<open>(x, y)\<close> that has all its eight
  neighbours, with the grey value as a parameter: the mean of the three channels, or the
  luma. They are compared with \<open>applyGradient\<close> below.
\<close>

definition spec_gray_mean :: "nat list \<Rightarrow> nat \<Rightarrow> nat \<Rightarrow> nat \<Rightarrow> real" where
  "spec_gray_mean pixels width x y =
     (let idx = (y * width + x) * 4
      in (real (pixels ! idx) + real (pixels ! (idx + 1)) + real (pixels ! (idx + 2))) / 3)"

definition spec_gray_luma :: "nat list \<Rightarrow> nat \<Rightarrow> nat \<Rightarrow> nat \<Rightarrow> real" where
  "spec_gray_luma pixels width x y =
     (let idx = (y * width + x) * 4
      in 0.299 * real (pixels ! idx) + 0.587 * real (pixels ! (idx + 1))
         + 0.114 * real (pixels ! (idx + 2)))"

definition spec_convolve3 :: "(nat \<Rightarrow> nat \<Rightarrow> real) \<Rightarrow> real list \<Rightarrow> nat \<Rightarrow> nat \<Rightarrow> real" where
  "spec_convolve3 gray ks x y =
     sum_list (map (\<lambda>ky. sum_list (map (\<lambda>kx.
        gray (x + kx - 1) (y + ky - 1) * ks ! (ky * 3 + kx)) [0, 1, 2])) [0, 1, 2])"

definition spec_gradient_magnitude ::
    "(nat \<Rightarrow> nat \<Rightarrow> real) \<Rightarrow> real list \<Rightarrow> real list \<Rightarrow> nat \<Rightarrow> nat \<Rightarrow> real" where
  "spec_gradient_magnitude gray gx gy x y =
     sqrt ((spec_convolve3 gray gx x y)\<^sup>2 + (spec_convolve3 gray gy x y)\<^sup>2)"

text \<open>The four bytes of pixel number \<open>p\<close> of a buffer.\<close>

definition rgba :: "nat list \<Rightarrow> nat \<Rightarrow> nat \<times> nat \<times> nat \<times> nat" where
  "rgba buffer p = (buffer ! (p * 4), buffer ! (p * 4 + 1), buffer ! (p * 4 + 2), buffer ! (p * 4 + 3))"

section \<open>The gradient magnitude in double precision\<close>

text \<open>
  The convolution and the magnitude for a pixel \<open>(x, y)\<close> that has all its eight neighbours,
  with every operation rounded to double precision in the order of the loops of
  \<open>sobelWithGradient\<close>: rows outside, columns inside, the running sum starting at 0. They
  are shown below to be what \<open>sobelWithGradient\<close> computes before it stores.
\<close>

definition float64_convolve3 :: "(nat \<Rightarrow> nat \<Rightarrow> real) \<Rightarrow> real list \<Rightarrow> nat \<Rightarrow> nat \<Rightarrow> real" where
  "float64_convolve3 gray ks x y =
     fold (\<lambda>ky. fold (\<lambda>kx s.
        float64 (s + float64 (float64 (gray (x + kx - 1) (y + ky - 1)) * ks ! (ky * 3 + kx))))
        [0, 1, 2]) [0, 1, 2] 0"

definition float64_gradient_magnitude ::
    "(nat \<Rightarrow> nat \<Rightarrow> real) \<Rightarrow> real list \<Rightarrow> real list \<Rightarrow> nat \<Rightarrow> nat \<Rightarrow> real" where
  "float64_gradient_magnitude gray gx gy x y =
     (let sumGx = float64_convolve3 gray gx x y;
          sumGy = float64_convolve3 gray gy x y
      in float64 (sqrt (float64 (float64 (sumGx * sumGx) + float64 (sumGy * sumGy)))))"

section \<open>An example image\<close>

text \<open>
  A 3x3 image, opaque, black except for its right column, which is the dark red
  \<open>(30, 0, 0)\<close>: a vertical edge between the second and the third column.
\<close>

definition edge3x3 :: "nat list" where
  "edge3x3 =
     [0, 0, 0, 255,  0, 0, 0, 255,  30, 0, 0, 255,
      0, 0, 0, 255,  0, 0, 0, 255,  30, 0, 0, 255,
      0, 0, 0, 255,  0, 0, 0, 255,  30, 0, 0, 255]"

section \<open>Properties\<close>

lemma by4_4: "by4 (Suc (Suc (Suc (Suc 0)))) = [0]"
  by (simp add: by4_def)

lemma upt_0_3: "[0..<3] = [0, 1, 2]"
  by (simp add: upt_rec)

lemma to_uint8_clamp_nat: "n \<le> 255 \<Longrightarrow> to_uint8_clamp (real n) = n"
  by (auto simp: to_uint8_clamp_def Let_def)

subsection \<open>Rounding to double and single precision\<close>

lemma round_ties_even_int [simp]: "round_ties_even (of_int n) = n"
  by (simp add: round_ties_even_def)

lemma round_ties_even_near:
  assumes "\<bar>x - of_int n\<bar> < 1 / 2"
  shows "round_ties_even x = n"
proof -
  have "\<lfloor>x\<rfloor> = n \<or> \<lfloor>x\<rfloor> = n - 1" using assms by linarith
  then show ?thesis
  proof
    assume f: "\<lfloor>x\<rfloor> = n"
    then have "x < of_int n + 1 / 2" using assms by linarith
    then show ?thesis by (simp add: round_ties_even_def f)
  next
    assume f: "\<lfloor>x\<rfloor> = n - 1"
    have "of_int n - 1 / 2 < x" using assms by linarith
    then have "\<not> x < of_int (n - 1) + 1 / 2" "of_int (n - 1) + 1 / 2 < x" by simp_all
    then show ?thesis unfolding round_ties_even_def Let_def f by simp
  qed
qed

lemma round_ties_even_nonneg: "0 \<le> x \<Longrightarrow> 0 \<le> round_ties_even x"
  unfolding round_ties_even_def Let_def
  by (smt (verit) zero_le_floor)

lemma float_exponent:
  assumes "2 powi e \<le> \<bar>x\<bar>" "\<bar>x\<bar> < 2 powi (e + 1)"
  shows "\<lfloor>log 2 \<bar>x\<bar>\<rfloor> = e"
proof -
  have pos: "0 < \<bar>x\<bar>" using assms(1) zero_less_power_int [of "2::real" e] by linarith
  have "2 powr real_of_int e \<le> \<bar>x\<bar>" "\<bar>x\<bar> < 2 powr real_of_int (e + 1)"
    using assms by (simp_all only: powr_real_of_int' [of "2::real", simplified])
  then show ?thesis
    using floor_log_eq_powr_iff [OF pos, of 2 e] by simp
qed

lemma float_round_eval:
  assumes "2 powi e \<le> \<bar>x\<bar>" "\<bar>x\<bar> < 2 powi (e + 1)" "emin \<le> e"
  shows "float_round p emin x =
     of_int (round_ties_even (x / 2 powi (e - int p + 1))) * 2 powi (e - int p + 1)"
proof -
  have "0 < \<bar>x\<bar>" using assms(1) zero_less_power_int [of "2::real" e] by linarith
  then have "x \<noteq> 0" by simp
  then show ?thesis
    using assms(3) by (simp add: float_round_def float_exponent [OF assms(1,2)] max_absorb2 Let_def)
qed

lemma float_round_nonneg:
  assumes "0 \<le> x"
  shows "0 \<le> float_round p emin x"
proof (cases "x = 0")
  case True
  then show ?thesis by (simp add: float_round_def)
next
  case False
  let ?u = "2 powi (max emin \<lfloor>log 2 \<bar>x\<bar>\<rfloor> - int p + 1) :: real"
  have u: "0 < ?u" by (rule zero_less_power_int) simp
  then have "0 \<le> x / ?u" using assms by simp
  then have "0 \<le> round_ties_even (x / ?u)" by (rule round_ties_even_nonneg)
  then show ?thesis using False u by (simp add: float_round_def Let_def)
qed

lemma float_round_exact:
  assumes "x = of_int m * 2 powi k" "\<bar>m\<bar> < 2 ^ p" "emin - int p + 1 \<le> k"
  shows "float_round p emin x = x"
proof (cases "m = 0")
  case True
  then show ?thesis using assms(1) by (simp add: float_round_def)
next
  case False
  have x0: "x \<noteq> 0" using False assms(1) by simp
  define l where "l = \<lfloor>log 2 \<bar>x\<bar>\<rfloor>"
  define e where "e = max emin l"
  have pos: "0 < \<bar>x\<bar>" using x0 by simp
  have "2 powr real_of_int l \<le> \<bar>x\<bar>"
    using floor_log_eq_powr_iff [OF pos, of 2 l] l_def by simp
  then have low: "2 powi l \<le> \<bar>x\<bar>" by (simp add: powr_real_of_int')
  have "\<bar>x\<bar> = of_int \<bar>m\<bar> * 2 powi k" using assms(1) by (simp add: abs_mult)
  moreover have "(of_int \<bar>m\<bar> :: real) < 2 ^ p" using assms(2) by (metis of_int_less_numeral_power_cancel_iff)
  ultimately have "\<bar>x\<bar> < 2 ^ p * 2 powi k" by simp
  also have "\<dots> = 2 powi (int p + k)" by (simp add: power_int_add)
  finally have "2 powi l < (2::real) powi (int p + k)" using low by linarith
  then have "l < int p + k"
    by (smt (verit) power_int_increasing)
  then have "e - int p + 1 \<le> k" using assms(3) by (simp add: e_def)
  then obtain d :: nat where d: "k = (e - int p + 1) + int d"
    by (metis zle_iff_zadd)
  have "x / 2 powi (e - int p + 1) = of_int m * 2 ^ d"
    using assms(1) by (simp add: d power_int_add)
  also have "\<dots> = of_int (m * 2 ^ d)" by simp
  finally have "round_ties_even (x / 2 powi (e - int p + 1)) = m * 2 ^ d"
    by (simp only: round_ties_even_int)
  then have "float_round p emin x = of_int (m * 2 ^ d) * 2 powi (e - int p + 1)"
    using x0 by (simp add: float_round_def Let_def e_def l_def)
  also have "\<dots> = x" using assms(1) by (simp add: d power_int_add)
  finally show ?thesis .
qed

lemma float64_exact:
  assumes "x = of_int m * 2 powi k" "\<bar>m\<bar> < 2 ^ 53" "- 1074 \<le> k"
  shows "float64 x = x"
  unfolding float64_def using assms by (intro float_round_exact [of x m k]) simp_all

lemma float64_eval:
  assumes "2 powi e \<le> \<bar>x\<bar>" "\<bar>x\<bar> < 2 powi (e + 1)" "- 1022 \<le> e"
  shows "float64 x = of_int (round_ties_even (x / 2 powi (e - 52))) * 2 powi (e - 52)"
  unfolding float64_def using float_round_eval [OF assms, of 53] by simp

lemma float32_eval:
  assumes "2 powi e \<le> \<bar>x\<bar>" "\<bar>x\<bar> < 2 powi (e + 1)" "- 126 \<le> e"
  shows "float32 x = of_int (round_ties_even (x / 2 powi (e - 23))) * 2 powi (e - 23)"
  unfolding float32_def using float_round_eval [OF assms, of 24] by simp

lemma float64_nonneg: "0 \<le> x \<Longrightarrow> 0 \<le> float64 x"
  unfolding float64_def by (rule float_round_nonneg)

lemma float64_0 [simp]: "float64 0 = 0"
  by (simp add: float64_def float_round_def)

subsection \<open>sigmoidContrast with contrast 0\<close>

text \<open>With contrast 0 a channel is 0 when it was 0, and 255 otherwise.\<close>

lemma sigmoid_channel_zero_contrast:
  "sigmoid_channel 0 factor (Some v) = (if v = 0 then 0 else 255)"
proof (cases "v = 0")
  case True
  then show ?thesis
    by (simp add: sigmoid_channel_def store8_def js_round_def to_uint8_clamp_def)
next
  case False
  then have "1 \<le> real v" by simp
  then have "255 \<le> real v * 255 + 1 / 2" by simp
  then have "255 \<le> js_round (real v * 255)" unfolding js_round_def by linarith
  then have "(255::real) \<le> of_int (js_round (real v * 255))" by simp
  then have "max 0 (min 255 (of_int (js_round (real v * 255)))) = (255::real)" by simp
  then show ?thesis
    using False by (simp add: sigmoid_channel_def store8_def to_uint8_clamp_def)
qed

text \<open>
  C1. With contrast 0 the buffer is not returned unchanged: a channel value \<open>v\<close> is
  multiplied by 255 and clamped, so the pixel (1, 2, 3, 4) becomes (255, 255, 255, 4).
\<close>

theorem sigmoidContrast_zero_not_identity:
  "sigmoidContrast (Some [1, 2, 3, 4]) (Some 0) = Inr [255, 255, 255, 4]"
  by (simp add: sigmoidContrast_def by4_4 upt_0_3 sigmoid_channel_def item_def store8_def copy8_def
      js_round_def to_uint8_clamp_def)

subsection \<open>The histogram of an image\<close>

lemma luma_defined:
  assumes "idx + 3 \<le> length pixels"
  shows "luma pixels idx =
     Some (real (pixels ! idx) * 0.299 + real (pixels ! (idx + 1)) * 0.587
           + real (pixels ! (idx + 2)) * 0.114)"
  using assms by (simp add: luma_def item_def)

lemma luma_bin_range:
  assumes "r \<le> 255" "g \<le> 255" "b \<le> (255::nat)"
  shows "0 \<le> js_round (real r * 0.299 + real g * 0.587 + real b * 0.114)"
    and "js_round (real r * 0.299 + real g * 0.587 + real b * 0.114) < 256"
proof -
  let ?x = "real r * 0.299 + real g * 0.587 + real b * 0.114"
  have r: "real r \<le> 255" "real g \<le> 255" "real b \<le> 255"
    using assms by simp_all
  have eq: "?x = (299 * real r + 587 * real g + 114 * real b) / 1000" by simp
  have lo: "0 \<le> ?x" by simp
  have hi: "?x \<le> 255" unfolding eq using r by simp
  show "0 \<le> js_round ?x" unfolding js_round_def using lo by linarith
  show "js_round ?x < 256" unfolding js_round_def using hi by linarith
qed

lemma length_incr [simp]: "length (incr h k) = length h"
  by (simp add: incr_def)

lemma length_bump [simp]: "length (bump h g) = length h"
  by (simp add: bump_def Let_def split: option.splits)

lemma to_uint32_small: "0 \<le> x \<Longrightarrow> x < 2 ^ 32 \<Longrightarrow> to_uint32 x = nat x"
  by (simp add: to_uint32_def)

lemma sum_list_incr:
  assumes "k < length h" "sum_list h + 1 < 2 ^ 32"
  shows "sum_list (incr h k) = sum_list h + 1"
proof -
  have le: "h ! k \<le> sum_list h"
    using assms(1) by (simp add: elem_le_sum_list)
  then have "h ! k + 1 < 2 ^ 32" using assms(2) by linarith
  then have "int (h ! k + 1) < 2 ^ 32" by (metis of_nat_less_numeral_power_cancel_iff)
  then have "int (h ! k) + 1 < 2 ^ 32" by simp
  then have "to_uint32 (int (h ! k) + 1) = h ! k + 1"
    by (simp add: to_uint32_small)
  then show ?thesis
    using assms(1) le by (simp add: incr_def sum_list_update)
qed

lemma sum_list_bump_pixel:
  assumes "idx + 3 \<le> length pixels" "list_all (\<lambda>b. b \<le> 255) pixels"
    and "length h = 256" "sum_list h + 1 < 2 ^ 32"
  shows "sum_list (bump h (luma pixels idx)) = sum_list h + 1"
proof -
  let ?x = "real (pixels ! idx) * 0.299 + real (pixels ! (idx + 1)) * 0.587
           + real (pixels ! (idx + 2)) * 0.114"
  have b: "pixels ! idx \<le> 255" "pixels ! (idx + 1) \<le> 255" "pixels ! (idx + 2) \<le> 255"
    using assms(1,2) by (simp_all add: list_all_length)
  have k: "0 \<le> js_round ?x" "js_round ?x < 256"
    using luma_bin_range [OF b] by simp_all
  then have "nat (js_round ?x) < length h" using assms(3) by simp
  then show ?thesis
    using k(1) assms(4) by (simp add: luma_defined [OF assms(1)] bump_def Let_def sum_list_incr)
qed

lemma histogram_loop_sum:
  assumes "4 * n \<le> length pixels" "list_all (\<lambda>b. b \<le> 255) pixels" "n < 2 ^ 32"
  shows "length (getHistogram_loop pixels n) = 256 \<and> sum_list (getHistogram_loop pixels n) = n"
  using assms
proof (induction n)
  case 0
  then show ?case by (simp add: getHistogram_loop_def)
next
  case (Suc n)
  then have IH: "length (getHistogram_loop pixels n) = 256"
      "sum_list (getHistogram_loop pixels n) = n"
    by simp_all
  have step: "getHistogram_loop pixels (Suc n) =
      bump (getHistogram_loop pixels n) (luma pixels (n * 4))"
    by (simp add: getHistogram_loop_def)
  have "n * 4 + 3 \<le> length pixels" using Suc.prems(1) by simp
  moreover have "sum_list (getHistogram_loop pixels n) + 1 < 2 ^ 32"
    using IH(2) Suc.prems(3) by simp
  ultimately have "sum_list (getHistogram_loop pixels (Suc n)) = n + 1"
    using sum_list_bump_pixel [of "n * 4" pixels "getHistogram_loop pixels n"] Suc.prems(2) IH
    by (simp add: step)
  then show ?case by (simp add: step IH(1))
qed

text \<open>
  C8. For a buffer that holds at least \<open>w * h\<close> pixels with channel values in
  \<open>[0, 255]\<close>, \<open>getHistogram\<close> returns 256 bins whose sum is \<open>w * h\<close>: the rounded
  luma of every pixel is one bin index in \<open>[0, 255]\<close>. The \<open>Uint32Array\<close> counters are
  exact while the pixel count is below \<open>2^32\<close>.
\<close>

theorem getHistogram_bin_sum:
  assumes "4 * (w * h) \<le> length pixels" "list_all (\<lambda>b. b \<le> 255) pixels" "w * h < 2 ^ 32"
  shows "\<exists>histogram. getHistogram (Some pixels) (Some w) (Some h) = Inr histogram
           \<and> length histogram = 256 \<and> sum_list histogram = w * h"
  using histogram_loop_sum [OF assms] by (simp add: getHistogram_def)

theorem getHistogram_bin_sum_witness:
  "4 * (2 * 1) \<le> length [128, 128, 128, 255, 10, 20, 30, 255::nat]
   \<and> list_all (\<lambda>b. b \<le> 255) [128, 128, 128, 255, 10, 20, 30, 255::nat]
   \<and> (2::nat) * 1 < 2 ^ 32
   \<and> (\<exists>histogram. getHistogram (Some [128, 128, 128, 255, 10, 20, 30, 255]) (Some 2) (Some 1)
          = Inr histogram \<and> length histogram = 256 \<and> sum_list histogram = 2 * 1)"
  using getHistogram_bin_sum [of 2 1 "[128, 128, 128, 255, 10, 20, 30, 255]"]
  by simp

subsection \<open>Clipping a histogram\<close>

lemma cap_loop_nth:
  assumes "n \<le> length h"
  shows "length (fold (\<lambda>i hs. if int (hs ! i) > limit then hs[i := v] else hs) [0..<n] h) = length h
    \<and> (\<forall>j<length h.
         fold (\<lambda>i hs. if int (hs ! i) > limit then hs[i := v] else hs) [0..<n] h ! j
       = (if j < n then (if int (h ! j) > limit then v else h ! j) else h ! j))"
  using assms
proof (induction n)
  case 0
  then show ?case by simp
next
  case (Suc n)
  let ?g = "fold (\<lambda>i hs. if int (hs ! i) > limit then hs[i := v] else hs) [0..<n] h"
  from Suc have len: "length ?g = length h"
    and nth: "\<And>j. j < length h \<Longrightarrow>
        ?g ! j = (if j < n then (if int (h ! j) > limit then v else h ! j) else h ! j)"
    by simp_all
  have n: "n < length h" using Suc.prems by simp
  have cur: "?g ! n = h ! n" using nth [OF n] by simp
  show ?case
    using len n nth by (auto simp: cur nth_list_update less_Suc_eq)
qed

lemma js_round_nonneg: "0 \<le> x \<Longrightarrow> 0 \<le> js_round x"
  unfolding js_round_def by linarith

lemma clipHistogram_nth:
  assumes "histogram \<noteq> []" "0 \<le> clip_limit histogram clipLimit" "\<forall>b\<in>set histogram. b < 2 ^ 32"
  shows "\<exists>clipped. clipHistogram histogram clipLimit = Inr clipped
      \<and> length clipped = length histogram
      \<and> (\<forall>i<length histogram.
            clipped ! i = min (histogram ! i) (nat (clip_limit histogram clipLimit)))"
proof -
  let ?l = "clip_limit histogram clipLimit"
  let ?c = "fold (\<lambda>i hs. if int (hs ! i) > ?l then hs[i := to_uint32 ?l] else hs)
              [0..<length histogram] histogram"
  have run: "clipHistogram histogram clipLimit = Inr ?c"
    using assms(1) by (simp add: clipHistogram_def Let_def)
  have loop: "length ?c = length histogram"
    "\<And>j. j < length histogram \<Longrightarrow>
       ?c ! j = (if int (histogram ! j) > ?l then to_uint32 ?l else histogram ! j)"
    using cap_loop_nth [of "length histogram" histogram ?l "to_uint32 ?l"] by simp_all
  have "?c ! i = min (histogram ! i) (nat ?l)" if i: "i < length histogram" for i
  proof (cases "int (histogram ! i) > ?l")
    case True
    have "histogram ! i < 2 ^ 32" using assms(3) i by simp
    then have "int (histogram ! i) < 2 ^ 32"
      by (metis of_nat_less_numeral_power_cancel_iff)
    then have "?l < 2 ^ 32" using True by linarith
    then have "to_uint32 ?l = nat ?l" using assms(2) by (simp add: to_uint32_small)
    moreover have "nat ?l \<le> histogram ! i" using True by linarith
    ultimately show ?thesis using True loop(2) [OF i] by (simp add: min_absorb2)
  next
    case False
    then have "histogram ! i \<le> nat ?l" by linarith
    then show ?thesis using False loop(2) [OF i] by (simp add: min_absorb1)
  qed
  then show ?thesis using run loop(1) by blast
qed

lemma clipHistogram_negative_limit:
  assumes "histogram \<noteq> []" "clip_limit histogram clipLimit < 0"
  shows "\<exists>clipped. clipHistogram histogram clipLimit = Inr clipped
      \<and> length clipped = length histogram
      \<and> (\<forall>i<length histogram. clipped ! i = to_uint32 (clip_limit histogram clipLimit))"
proof -
  let ?l = "clip_limit histogram clipLimit"
  let ?c = "fold (\<lambda>i hs. if int (hs ! i) > ?l then hs[i := to_uint32 ?l] else hs)
              [0..<length histogram] histogram"
  have run: "clipHistogram histogram clipLimit = Inr ?c"
    using assms(1) by (simp add: clipHistogram_def Let_def)
  have loop: "length ?c = length histogram"
    "\<And>j. j < length histogram \<Longrightarrow>
       ?c ! j = (if int (histogram ! j) > ?l then to_uint32 ?l else histogram ! j)"
    using cap_loop_nth [of "length histogram" histogram ?l "to_uint32 ?l"] by simp_all
  have "?c ! i = to_uint32 ?l" if i: "i < length histogram" for i
  proof -
    have "int (histogram ! i) > ?l" using assms(2) by linarith
    then show ?thesis using loop(2) [OF i] by simp
  qed
  then show ?thesis using run loop(1) by blast
qed

lemma float64_bin_average:
  assumes "n < 2 ^ 40"
  shows "float64 (real n / 256) = real n / 256"
proof (rule float64_exact [of _ "int n" "- 8"])
  have "int n < 2 ^ 40" using assms by (metis of_nat_less_numeral_power_cancel_iff)
  then show "\<bar>int n\<bar> < 2 ^ 53" by simp
qed (simp_all add: power_int_minus)

lemma histogram_sum_small:
  fixes histogram :: "nat list"
  assumes "length histogram = 256" "\<forall>b\<in>set histogram. b < 2 ^ 32"
  shows "sum_list histogram < 2 ^ 40"
proof -
  have "\<forall>b\<in>set histogram. b \<le> 2 ^ 32 - 1" using assms(2) by auto
  then have "sum_list histogram \<le> sum_list (map (\<lambda>b. 2 ^ 32 - 1) histogram)"
    using sum_list_mono [of histogram "\<lambda>b. b" "\<lambda>b. 2 ^ 32 - 1"] by simp
  then have "sum_list histogram \<le> length histogram * (2 ^ 32 - 1)"
    by (simp add: sum_list_triv)
  then show ?thesis using assms(1) by simp
qed

lemma clip_limit_256:
  assumes "length histogram = 256" "\<forall>b\<in>set histogram. b < 2 ^ 32"
  shows "clip_limit histogram clipLimit =
     js_round (float64 (clipLimit * (real (sum_list histogram) / 256)))"
proof -
  have avg: "float64 (real (sum_list histogram) / 256) = real (sum_list histogram) / 256"
    by (rule float64_bin_average [OF histogram_sum_small [OF assms]])
  show ?thesis
    unfolding clip_limit_def Let_def assms(1) by (simp add: avg)
qed

text \<open>
  The claim C10 does not hold for a negative clip limit: for the 256-bin histogram with
  512 in bin 0 and nothing elsewhere and the clip limit \<open>-1\<close> the limit is \<open>-2\<close>, every bin
  is above it, and \<open>histogram[i] = limit\<close> stores \<open>-2\<close> modulo \<open>2^32\<close>: bin 1 grows from
  0 to 4294967294, which is not \<open>min(0, -2)\<close>.
\<close>

theorem clipHistogram_negative_clip_limit:
  "clip_limit (512 # replicate 255 0) (- 1) = - 2
   \<and> clipHistogram (512 # replicate 255 0) (- 1) = Inr (replicate 256 4294967294)
   \<and> (512 # replicate 255 0) ! 1 = (0::nat)
   \<and> replicate 256 (4294967294::nat) ! 1 = 4294967294"
proof -
  let ?h = "512 # replicate 255 (0::nat)"
  have len: "length ?h = 256" by simp
  have small: "\<forall>b\<in>set ?h. b < 2 ^ 32" by auto
  have two: "float64 2 = 2" "float64 (- 2) = - 2"
    using float64_exact [of 2 2 0] float64_exact [of "- 2" "- 2" 0] by simp_all
  have s: "sum_list ?h = 512" by simp
  have "clip_limit ?h (- 1) = js_round (float64 (- 1 * (real (sum_list ?h) / 256)))"
    by (rule clip_limit_256 [OF len small])
  then have lim: "clip_limit ?h (- 1) = - 2"
    unfolding s by (simp add: two js_round_def)
  have ne: "?h \<noteq> []" by simp
  obtain clipped where c: "clipHistogram ?h (- 1) = Inr clipped" "length clipped = length ?h"
      "\<And>i. i < length ?h \<Longrightarrow> clipped ! i = to_uint32 (clip_limit ?h (- 1))"
    using clipHistogram_negative_limit [OF ne, of "- 1"] lim by auto
  have "clipped ! i = 4294967294" if "i < 256" for i
    using c(3) [of i] that by (simp only: lim len) (simp add: to_uint32_def)
  then have "clipped = replicate 256 4294967294"
    using c(2) by (intro nth_equalityI) simp_all
  then show ?thesis using c(1) lim by simp
qed

text \<open>
  C10 (amended). \<open>clipHistogram\<close> overwrites the 256-bin histogram it is given (the model
  returns the contents of that array after the call). For a clip limit that is not
  negative, every bin \<open>i\<close> then holds \<open>min(histogram[i], limit)\<close> with
  \<open>limit = Math.round(clipLimit * (sum of the bins / 256))\<close>, the product being the
  double-precision one; no bin grows and the sum of the bins does not grow.
\<close>

theorem clipHistogram_caps_bins:
  assumes "length histogram = 256" "0 \<le> clipLimit" "list_all (\<lambda>b. b < 2 ^ 32) histogram"
  shows "\<exists>clipped. clipHistogram histogram clipLimit = Inr clipped
      \<and> length clipped = 256
      \<and> (\<forall>i<256. clipped ! i =
            min (histogram ! i)
              (nat (js_round (float64 (clipLimit * (real (sum_list histogram) / 256))))))
      \<and> (\<forall>i<256. clipped ! i \<le> histogram ! i)
      \<and> sum_list clipped \<le> sum_list histogram"
proof -
  let ?l = "js_round (float64 (clipLimit * (real (sum_list histogram) / 256)))"
  have small: "\<forall>b\<in>set histogram. b < 2 ^ 32"
    using assms(3) by (simp add: list_all_iff)
  have lim: "clip_limit histogram clipLimit = ?l"
    by (rule clip_limit_256 [OF assms(1) small])
  have "0 \<le> clipLimit * (real (sum_list histogram) / 256)" using assms(2) by simp
  then have "0 \<le> float64 (clipLimit * (real (sum_list histogram) / 256))"
    by (rule float64_nonneg)
  then have nonneg: "0 \<le> ?l" by (rule js_round_nonneg)
  have ne: "histogram \<noteq> []" using assms(1) by auto
  obtain clipped where c: "clipHistogram histogram clipLimit = Inr clipped"
      "length clipped = length histogram"
      "\<And>i. i < length histogram \<Longrightarrow> clipped ! i = min (histogram ! i) (nat ?l)"
    using clipHistogram_nth [OF ne _ small, of clipLimit] nonneg lim
    by auto
  have eq: "clipped = map (\<lambda>b. min b (nat ?l)) histogram"
    using c(2,3) by (intro nth_equalityI) simp_all
  have "sum_list (map (\<lambda>b. min b (nat ?l)) histogram) \<le> sum_list (map (\<lambda>b. b) histogram)"
    by (rule sum_list_mono) simp
  then have "sum_list clipped \<le> sum_list histogram" by (simp add: eq)
  then show ?thesis using c assms(1) by auto
qed

text \<open>
  An instance where the rounding of the product decides: the clip limit is the double
  nearest to 2.3, the bins sum to 1280, the product \<open>11.4999999999999991...\<close> rounds to the
  double 11.5 and \<open>Math.round\<close> gives the limit 12.
\<close>

lemma float64_clip_product:
  "float64 (2589569785738035 / 1125899906842624 * (real 1280 / 256)) = 23 / 2"
proof -
  have "float64 (12947848928690175 / 1125899906842624) =
     of_int (round_ties_even ((12947848928690175 / 1125899906842624) / 2 powi (3 - 52)))
       * 2 powi (3 - 52)"
    by (rule float64_eval) simp_all
  also have "\<dots> = 23 / 2"
    by (simp add: round_ties_even_def power_int_minus)
  finally show ?thesis by simp
qed

theorem clipHistogram_caps_bins_witness:
  "length (1200 # 80 # replicate 254 (0::nat)) = 256
   \<and> (0::real) \<le> 2589569785738035 / 1125899906842624
   \<and> list_all (\<lambda>b. b < 2 ^ 32) (1200 # 80 # replicate 254 (0::nat))
   \<and> (\<exists>clipped.
        clipHistogram (1200 # 80 # replicate 254 0) (2589569785738035 / 1125899906842624)
          = Inr clipped
      \<and> length clipped = 256
      \<and> clipped ! 0 = 12 \<and> clipped ! 1 = 12 \<and> clipped ! 2 = 0
      \<and> sum_list clipped \<le> 1280)"
proof -
  let ?h = "1200 # 80 # replicate 254 (0::nat)"
  let ?c = "2589569785738035 / 1125899906842624 :: real"
  have h: "length ?h = 256" "0 \<le> ?c" "list_all (\<lambda>b. b < 2 ^ 32) ?h"
    by (simp_all add: list_all_iff)
  have s: "sum_list ?h = 1280" by simp
  have l: "nat (js_round (float64 (?c * (real (sum_list ?h) / 256)))) = 12"
    unfolding s float64_clip_product by (simp add: js_round_def)
  obtain clipped where c: "clipHistogram ?h ?c = Inr clipped" "length clipped = 256"
      "\<forall>i<256. clipped ! i = min (?h ! i) (nat (js_round (float64 (?c * (real (sum_list ?h) / 256)))))"
      "sum_list clipped \<le> sum_list ?h"
    using clipHistogram_caps_bins [OF h] by blast
  have "clipped ! 0 = 12" "clipped ! 1 = 12" "clipped ! 2 = 0"
    using c(3) [rule_format, of 0] c(3) [rule_format, of 1] c(3) [rule_format, of 2]
    unfolding l by simp_all
  moreover have "sum_list clipped \<le> 1280" using c(4) unfolding s .
  ultimately show ?thesis using h c(1,2) by blast
qed

subsection \<open>The tile grid of CLAHE\<close>

lemma tile_size_covers:
  assumes "0 < g"
  shows "n \<le> tile_size n g * g"
proof -
  have "real n / real g \<le> of_int \<lceil>real n / real g\<rceil>" by (rule le_of_int_ceiling)
  moreover have nn: "0 \<le> real n / real g" by simp
  have "- 1 < real n / real g" using nn by linarith
  then have "0 \<le> \<lceil>real n / real g\<rceil>" by simp
  ultimately have "real n / real g \<le> real (tile_size n g)"
    by (simp add: tile_size_def)
  then have "real n \<le> real (tile_size n g) * real g"
    using assms by (simp add: field_simps)
  then have "real n \<le> real (tile_size n g * g)" by simp
  then show ?thesis by (simp only: of_nat_le_iff)
qed

lemma tile_size_pos:
  assumes "0 < g" "0 < n"
  shows "0 < tile_size n g"
proof (rule ccontr)
  assume "\<not> 0 < tile_size n g"
  then have "tile_size n g = 0" by simp
  then have "n \<le> 0" using tile_size_covers [OF assms(1), of n] by simp
  then show False using assms(2) by simp
qed

lemma strip_unique:
  fixes t x n g k :: nat
  assumes "0 < t" "x < n" "n \<le> t * g"
  shows "(k < g \<and> k * t \<le> x \<and> x < min ((k + 1) * t) n) \<longleftrightarrow> k = x div t"
proof
  assume a: "k < g \<and> k * t \<le> x \<and> x < min ((k + 1) * t) n"
  then have "k * t \<le> x" "x < (k + 1) * t" by simp_all
  then have "x div t = k"
    by (intro div_nat_eqI) (simp_all add: mult.commute)
  then show "k = x div t" by simp
next
  assume k: "k = x div t"
  have lo: "x div t * t \<le> x" by simp
  have hi: "x < (x div t + 1) * t"
    using assms(1) by (metis Suc_eq_plus1 dividend_less_div_times mult.commute mult_Suc_right)
  have "x div t < g"
  proof (rule ccontr)
    assume "\<not> x div t < g"
    then have "g \<le> x div t" by simp
    then have "t * g \<le> t * (x div t)" by simp
    also have "\<dots> \<le> x" by simp
    finally show False using assms(2,3) by simp
  qed
  then show "k < g \<and> k * t \<le> x \<and> x < min ((k + 1) * t) n"
    using k lo hi assms(2) by simp
qed

lemma in_tile_bounds_iff:
  assumes "0 < width" "0 < height" "0 < gridSize" "x < width" "y < height"
  shows "(tileX < gridSize \<and> tileY < gridSize
          \<and> in_tile (tile_bounds width height gridSize tileX tileY) x y)
     \<longleftrightarrow> (tileX = x div tile_size width gridSize \<and> tileY = y div tile_size height gridSize)"
proof -
  have X: "(tileX < gridSize \<and> tileX * tile_size width gridSize \<le> x
            \<and> x < min ((tileX + 1) * tile_size width gridSize) width)
         \<longleftrightarrow> tileX = x div tile_size width gridSize"
    by (rule strip_unique [OF tile_size_pos [OF assms(3,1)] assms(4)])
       (simp add: tile_size_covers [OF assms(3)])
  have Y: "(tileY < gridSize \<and> tileY * tile_size height gridSize \<le> y
            \<and> y < min ((tileY + 1) * tile_size height gridSize) height)
         \<longleftrightarrow> tileY = y div tile_size height gridSize"
    by (rule strip_unique [OF tile_size_pos [OF assms(3,2)] assms(5)])
       (simp add: tile_size_covers [OF assms(3)])
  show ?thesis
    using X Y by (auto simp: in_tile_def tile_bounds_def Let_def)
qed

lemma in_tile_inside:
  "in_tile (tile_bounds width height gridSize tileX tileY) x y \<Longrightarrow> x < width \<and> y < height"
  by (simp add: in_tile_def tile_bounds_def Let_def)



subsection \<open>Loops that write one pixel per step\<close>

lemma for_each_total:
  assumes "\<And>i s. i \<in> set xs \<Longrightarrow> body i s = Inr (f i s)"
  shows "for_each xs body s = Inr (fold f xs s)"
  using assms by (induction xs arbitrary: s) simp_all

text \<open>
  A loop that writes the four bytes of one pixel per step, with values that do not depend
  on the buffer being written.
\<close>

lemma write4_length:
  "length (fold (\<lambda>k res. res[ix k := a k, ix k + 1 := b k, ix k + 2 := c k, ix k + 3 := d k])
            ks res0) = length res0"
  by (induction ks arbitrary: res0) simp_all

lemma write4_miss:
  assumes "\<And>k. k \<in> set ks \<Longrightarrow> n < ix k \<or> ix k + 3 < n"
  shows "fold (\<lambda>k res. res[ix k := a k, ix k + 1 := b k, ix k + 2 := c k, ix k + 3 := d k])
            ks res0 ! n = res0 ! n"
  using assms
proof (induction ks arbitrary: res0)
  case Nil
  then show ?case by simp
next
  case (Cons k ks)
  have "n < ix k \<or> ix k + 3 < n" using Cons.prems by simp
  then have "res0[ix k := a k, ix k + 1 := b k, ix k + 2 := c k, ix k + 3 := d k] ! n = res0 ! n"
    by auto
  then show ?case using Cons by simp
qed

lemma write4_once:
  assumes "i + 3 < length res" "j < 4"
  shows "res[i := a, i + 1 := b, i + 2 := c, i + 3 := d] ! (i + j) = [a, b, c, d] ! j"
proof -
  have "j = 0 \<or> j = 1 \<or> j = 2 \<or> j = 3" using assms(2) by auto
  then show ?thesis using assms(1) by (auto simp: nth_list_update)
qed

lemma write4_hit:
  assumes "k \<in> set ks" "ix k + 3 < length res0" "j < 4"
    and "\<And>k'. k' \<in> set ks \<Longrightarrow> k' \<noteq> k \<Longrightarrow> ix k + j < ix k' \<or> ix k' + 3 < ix k + j"
  shows "fold (\<lambda>k res. res[ix k := a k, ix k + 1 := b k, ix k + 2 := c k, ix k + 3 := d k])
            ks res0 ! (ix k + j) = [a k, b k, c k, d k] ! j"
  using assms
proof (induction ks arbitrary: res0)
  case Nil
  then show ?case by simp
next
  case (Cons k0 ks)
  let ?step = "\<lambda>k res. res[ix k := a k, ix k + 1 := b k, ix k + 2 := c k, ix k + 3 := d k]"
  show ?case
  proof (cases "k \<in> set ks")
    case True
    have "fold ?step ks (?step k0 res0) ! (ix k + j) = [a k, b k, c k, d k] ! j"
      using True Cons.prems by (intro Cons.IH) simp_all
    then show ?thesis by simp
  next
    case False
    then have k0: "k0 = k" using Cons.prems(1) by simp
    have "fold ?step ks (?step k res0) ! (ix k + j) = ?step k res0 ! (ix k + j)"
    proof (rule write4_miss)
      fix k' assume "k' \<in> set ks"
      then show "ix k + j < ix k' \<or> ix k' + 3 < ix k + j"
        using False Cons.prems(4) [of k'] by auto
    qed
    also have "\<dots> = [a k, b k, c k, d k] ! j"
      using Cons.prems(2,3) by (rule write4_once)
    finally show ?thesis by (simp add: k0)
  qed
qed

text \<open>Pixel offsets: two pixels of a row-major grid share no byte.\<close>

lemma pixel_cells_apart:
  fixes p q :: nat
  assumes "p \<noteq> q" "j < 4"
  shows "p * 4 + j < q * 4 \<or> q * 4 + 3 < p * 4 + j"
  using assms by linarith

lemma grid_index_inj:
  fixes w :: nat
  assumes "x < w" "x' < w" "y * w + x = y' * w + x'"
  shows "y = y' \<and> x = x'"
proof -
  have "(y * w + x) div w = y" "(y' * w + x') div w = y'"
    using assms(1,2) by simp_all
  then have "y = y'" using assms(3) by simp
  then show ?thesis using assms(3) by simp
qed

subsection \<open>Loops over the rows and columns of a buffer\<close>

lemma fold_length:
  assumes "\<And>k s. k \<in> set ks \<Longrightarrow> length (f k s) = length s"
  shows "length (fold f ks s) = length s"
  using assms by (induction ks arbitrary: s) simp_all

lemma fold_keeps:
  assumes "\<And>k s. k \<in> set ks \<Longrightarrow> f k s ! n = s ! n"
  shows "fold f ks s ! n = s ! n"
  using assms by (induction ks arbitrary: s) simp_all

lemma fold_sets:
  assumes "k \<in> set ks" "length s0 = l"
    and "\<And>k' s. k' \<in> set ks \<Longrightarrow> length (f k' s) = length s"
    and "\<And>s. length s = l \<Longrightarrow> f k s ! n = v"
    and "\<And>k' s. k' \<in> set ks \<Longrightarrow> k' \<noteq> k \<Longrightarrow> f k' s ! n = s ! n"
  shows "fold f ks s0 ! n = v"
  using assms
proof (induction ks arbitrary: s0)
  case Nil
  then show ?case by simp
next
  case (Cons k0 ks)
  have len: "length (f k0 s0) = l" using Cons.prems(2,3) by simp
  show ?case
  proof (cases "k \<in> set ks")
    case True
    have "fold f ks (f k0 s0) ! n = v"
      using True len Cons.prems(3,4,5) by (intro Cons.IH) simp_all
    then show ?thesis by simp
  next
    case False
    then have k0: "k0 = k" using Cons.prems(1) by simp
    have "fold f ks (f k s0) ! n = f k s0 ! n"
      using False Cons.prems(5) by (intro fold_keeps) auto
    also have "\<dots> = v" using Cons.prems(2,4) by simp
    finally show ?thesis by (simp add: k0)
  qed
qed

text \<open>
  The two inner loops shared by the operations: rows \<open>ys\<close>, columns \<open>xs\<close>, one pixel
  written per step.
\<close>

lemma paint_length:
  "length (fold (\<lambda>y. fold (\<lambda>x res.
       res[(y * w + x) * 4 := a y x, (y * w + x) * 4 + 1 := b y x,
           (y * w + x) * 4 + 2 := c y x, (y * w + x) * 4 + 3 := d y x]) xs) ys res0)
     = length res0"
  by (intro fold_length) simp

lemma paint_miss:
  assumes "x < w" "\<And>x'. x' \<in> set xs \<Longrightarrow> x' < w" "\<not> (y \<in> set ys \<and> x \<in> set xs)" "j < 4"
  shows "fold (\<lambda>y. fold (\<lambda>x res.
       res[(y * w + x) * 4 := a y x, (y * w + x) * 4 + 1 := b y x,
           (y * w + x) * 4 + 2 := c y x, (y * w + x) * 4 + 3 := d y x]) xs) ys res0
         ! ((y * w + x) * 4 + j) = res0 ! ((y * w + x) * 4 + j)"
proof (intro fold_keeps)
  fix y' x' and s :: "'a list"
  assume "y' \<in> set ys" "x' \<in> set xs"
  then have "y' * w + x' \<noteq> y * w + x"
    using grid_index_inj [of x' w x y' y] assms(1,2,3) by auto
  then have "(y * w + x) * 4 + j < (y' * w + x') * 4 \<or> (y' * w + x') * 4 + 3 < (y * w + x) * 4 + j"
    using assms(4) by (intro pixel_cells_apart) simp_all
  then show "s[(y' * w + x') * 4 := a y' x', (y' * w + x') * 4 + 1 := b y' x',
           (y' * w + x') * 4 + 2 := c y' x', (y' * w + x') * 4 + 3 := d y' x']
         ! ((y * w + x) * 4 + j) = s ! ((y * w + x) * 4 + j)"
    by auto
qed

lemma paint_hit:
  assumes "y \<in> set ys" "x \<in> set xs" "\<And>x'. x' \<in> set xs \<Longrightarrow> x' < w"
    and "(y * w + x) * 4 + 3 < length res0" "j < 4"
  shows "fold (\<lambda>y. fold (\<lambda>x res.
       res[(y * w + x) * 4 := a y x, (y * w + x) * 4 + 1 := b y x,
           (y * w + x) * 4 + 2 := c y x, (y * w + x) * 4 + 3 := d y x]) xs) ys res0
         ! ((y * w + x) * 4 + j) = [a y x, b y x, c y x, d y x] ! j"
proof (rule fold_sets [OF assms(1) refl])
  fix y' and s :: "'a list"
  show "length (fold (\<lambda>x res.
       res[(y' * w + x) * 4 := a y' x, (y' * w + x) * 4 + 1 := b y' x,
           (y' * w + x) * 4 + 2 := c y' x, (y' * w + x) * 4 + 3 := d y' x]) xs s) = length s"
    by (intro fold_length) simp
next
  fix s :: "'a list" assume len: "length s = length res0"
  show "fold (\<lambda>x res.
       res[(y * w + x) * 4 := a y x, (y * w + x) * 4 + 1 := b y x,
           (y * w + x) * 4 + 2 := c y x, (y * w + x) * 4 + 3 := d y x]) xs s
         ! ((y * w + x) * 4 + j) = [a y x, b y x, c y x, d y x] ! j"
  proof (rule fold_sets [OF assms(2) len])
    fix x' and t :: "'a list"
    show "length (t[(y * w + x') * 4 := a y x', (y * w + x') * 4 + 1 := b y x',
           (y * w + x') * 4 + 2 := c y x', (y * w + x') * 4 + 3 := d y x']) = length t"
      by simp
  next
    fix t :: "'a list" assume "length t = length res0"
    then have "(y * w + x) * 4 + 3 < length t" using assms(4) by simp
    then show "t[(y * w + x) * 4 := a y x, (y * w + x) * 4 + 1 := b y x,
           (y * w + x) * 4 + 2 := c y x, (y * w + x) * 4 + 3 := d y x]
         ! ((y * w + x) * 4 + j) = [a y x, b y x, c y x, d y x] ! j"
      using assms(5) by (rule write4_once)
  next
    fix x' and t :: "'a list"
    assume "x' \<in> set xs" "x' \<noteq> x"
    then have "(y * w + x) * 4 + j < (y * w + x') * 4 \<or> (y * w + x') * 4 + 3 < (y * w + x) * 4 + j"
      using assms(5) by (intro pixel_cells_apart) simp_all
    then show "t[(y * w + x') * 4 := a y x', (y * w + x') * 4 + 1 := b y x',
           (y * w + x') * 4 + 2 := c y x', (y * w + x') * 4 + 3 := d y x']
         ! ((y * w + x) * 4 + j) = t ! ((y * w + x) * 4 + j)"
      by auto
  qed
next
  fix y' and s :: "'a list"
  assume "y' \<in> set ys" "y' \<noteq> y"
  show "fold (\<lambda>x res.
       res[(y' * w + x) * 4 := a y' x, (y' * w + x) * 4 + 1 := b y' x,
           (y' * w + x) * 4 + 2 := c y' x, (y' * w + x) * 4 + 3 := d y' x]) xs s
         ! ((y * w + x) * 4 + j) = s ! ((y * w + x) * 4 + j)"
  proof (intro fold_keeps)
    fix x' and t :: "'a list"
    assume "x' \<in> set xs"
    then have "y' * w + x' \<noteq> y * w + x"
      using grid_index_inj [of x' w x y' y] assms(2,3) \<open>y' \<noteq> y\<close> by auto
    then have "(y * w + x) * 4 + j < (y' * w + x') * 4 \<or> (y' * w + x') * 4 + 3 < (y * w + x) * 4 + j"
      using assms(5) by (intro pixel_cells_apart) simp_all
    then show "t[(y' * w + x') * 4 := a y' x', (y' * w + x') * 4 + 1 := b y' x',
           (y' * w + x') * 4 + 2 := c y' x', (y' * w + x') * 4 + 3 := d y' x']
         ! ((y * w + x) * 4 + j) = t ! ((y * w + x) * 4 + j)"
      by auto
  qed
qed

subsection \<open>The output of CLAHE, pixel by pixel\<close>

lemma length_getTileHistogram:
  "length (getTileHistogram pixels width x1 y1 x2 y2) = 256"
proof -
  have "length (fold (\<lambda>y. fold (\<lambda>x histogram.
             let idx = (y * width + x) * 4 in bump histogram (luma pixels idx)) [x1..<x2])
       [y1..<y2] (replicate 256 0)) = length (replicate 256 (0::nat))"
    by (intro fold_length) (simp add: Let_def)
  then show ?thesis by (simp add: getTileHistogram_def)
qed

lemma tile_lut_total: "\<exists>lut. tile_lut pixels width clipLimit tile = Inr lut"
proof -
  obtain x1 y1 x2 y2 where t: "tile = (x1, y1, x2, y2)" by (cases tile) auto
  have "length (getTileHistogram pixels width x1 y1 x2 y2) = 256"
    by (rule length_getTileHistogram)
  then have "getTileHistogram pixels width x1 y1 x2 y2 \<noteq> []" by auto
  then show ?thesis by (simp add: tile_lut_def t clipHistogram_def Let_def)
qed

lemma clahe_body_fold:
  "clahe_body pixels width height clipLimit gridSize =
     Inr (fold (\<lambda>tileY. fold (\<lambda>tileX.
              apply_lut pixels width
                (projr (tile_lut pixels width clipLimit
                          (tile_bounds width height gridSize tileX tileY)))
                (tile_bounds width height gridSize tileX tileY))
            [0..<gridSize])
          [0..<gridSize] (replicate (length pixels) 0))"
proof -
  have tile: "(let tile = tile_bounds width height gridSize tileX tileY
         in case tile_lut pixels width clipLimit tile of
              Inl e \<Rightarrow> Inl e
            | Inr lut \<Rightarrow> Inr (apply_lut pixels width lut tile result))
      = Inr (apply_lut pixels width
                (projr (tile_lut pixels width clipLimit
                          (tile_bounds width height gridSize tileX tileY)))
                (tile_bounds width height gridSize tileX tileY) result)"
    for tileX tileY result
  proof -
    obtain lut where "tile_lut pixels width clipLimit
        (tile_bounds width height gridSize tileX tileY) = Inr lut"
      using tile_lut_total by blast
    then show ?thesis by (simp add: Let_def)
  qed
  show ?thesis
    unfolding clahe_body_def
    by (intro for_each_total) (simp only: tile)
qed

lemma tile_right_edge:
  "tile_bounds width height gridSize tileX tileY = (x1, y1, x2, y2) \<Longrightarrow> x2 \<le> width"
  by (auto simp: tile_bounds_def Let_def)

lemma length_apply_lut [simp]: "length (apply_lut pixels width lut tile result) = length result"
  unfolding apply_lut_def Let_def
  by (cases tile) (simp only: prod.case paint_length)

lemma apply_lut_miss:
  assumes "x < width" "\<not> in_tile (tile_bounds width height gridSize tileX tileY) x y" "j < 4"
  shows "apply_lut pixels width lut (tile_bounds width height gridSize tileX tileY) result
           ! ((y * width + x) * 4 + j) = result ! ((y * width + x) * 4 + j)"
proof -
  obtain x1 y1 x2 y2 where b: "tile_bounds width height gridSize tileX tileY = (x1, y1, x2, y2)"
    by (cases "tile_bounds width height gridSize tileX tileY") auto
  have edge: "x2 \<le> width" using b by (rule tile_right_edge)
  have out: "\<not> (y \<in> set [y1..<y2] \<and> x \<in> set [x1..<x2])"
    using assms(2) by (auto simp: b in_tile_def)
  show ?thesis
    unfolding b apply_lut_def Let_def prod.case
    by (rule paint_miss [OF assms(1) _ out assms(3)]) (use edge in auto)
qed

lemma apply_lut_hit:
  assumes "in_tile (tile_bounds width height gridSize tileX tileY) x y"
    and "(y * width + x) * 4 + 3 < length result" "j < 4"
  shows "apply_lut pixels width lut (tile_bounds width height gridSize tileX tileY) result
           ! ((y * width + x) * 4 + j)
         = [lookup8 lut (item pixels ((y * width + x) * 4)),
            lookup8 lut (item pixels ((y * width + x) * 4 + 1)),
            lookup8 lut (item pixels ((y * width + x) * 4 + 2)),
            copy8 (item pixels ((y * width + x) * 4 + 3))] ! j"
proof -
  obtain x1 y1 x2 y2 where b: "tile_bounds width height gridSize tileX tileY = (x1, y1, x2, y2)"
    by (cases "tile_bounds width height gridSize tileX tileY") auto
  have edge: "x2 \<le> width" using b by (rule tile_right_edge)
  have inside: "y \<in> set [y1..<y2]" "x \<in> set [x1..<x2]"
    using assms(1) by (auto simp: b in_tile_def)
  show ?thesis
    unfolding b apply_lut_def Let_def prod.case
    by (rule paint_hit [OF inside _ assms(2,3)]) (use edge in auto)
qed

lemma grid_index_bound:
  fixes w h :: nat
  assumes "x < w" "y < h"
  shows "y * w + x < w * h"
proof -
  have "y * w + x < y * w + w" using assms(1) by simp
  also have "\<dots> = (y + 1) * w" by simp
  also have "\<dots> \<le> h * w" using assms(2) by (intro mult_le_mono1) simp
  finally show ?thesis by (simp add: mult.commute)
qed

lemma pixel_in_buffer:
  fixes w h :: nat
  assumes "x < w" "y < h" "length pixels = w * h * 4" "j < 4"
  shows "(y * w + x) * 4 + j < length pixels"
  using grid_index_bound [OF assms(1,2)] assms(3,4) by simp

lemma clahe_body_pixel:
  assumes "0 < gridSize" "x < width" "y < height" "length pixels = width * height * 4" "j < 4"
  shows "\<exists>result. clahe_body pixels width height clipLimit gridSize = Inr result
      \<and> length result = length pixels
      \<and> result ! ((y * width + x) * 4 + j) =
          [lookup8 (projr (tile_lut pixels width clipLimit
                      (tile_bounds width height gridSize
                         (x div tile_size width gridSize) (y div tile_size height gridSize))))
             (item pixels ((y * width + x) * 4)),
           lookup8 (projr (tile_lut pixels width clipLimit
                      (tile_bounds width height gridSize
                         (x div tile_size width gridSize) (y div tile_size height gridSize))))
             (item pixels ((y * width + x) * 4 + 1)),
           lookup8 (projr (tile_lut pixels width clipLimit
                      (tile_bounds width height gridSize
                         (x div tile_size width gridSize) (y div tile_size height gridSize))))
             (item pixels ((y * width + x) * 4 + 2)),
           copy8 (item pixels ((y * width + x) * 4 + 3))] ! j"
proof -
  let ?tx = "x div tile_size width gridSize" and ?ty = "y div tile_size height gridSize"
  let ?A = "\<lambda>tileY tileX. apply_lut pixels width
                (projr (tile_lut pixels width clipLimit
                          (tile_bounds width height gridSize tileX tileY)))
                (tile_bounds width height gridSize tileX tileY)"
  let ?n = "(y * width + x) * 4 + j"
  let ?v = "[lookup8 (projr (tile_lut pixels width clipLimit
                      (tile_bounds width height gridSize ?tx ?ty)))
             (item pixels ((y * width + x) * 4)),
           lookup8 (projr (tile_lut pixels width clipLimit
                      (tile_bounds width height gridSize ?tx ?ty)))
             (item pixels ((y * width + x) * 4 + 1)),
           lookup8 (projr (tile_lut pixels width clipLimit
                      (tile_bounds width height gridSize ?tx ?ty)))
             (item pixels ((y * width + x) * 4 + 2)),
           copy8 (item pixels ((y * width + x) * 4 + 3))] ! j"
  let ?res0 = "replicate (length pixels) (0::nat)"
  have pos: "0 < width" "0 < height" using assms(2,3) by simp_all
  have own: "\<And>tileX tileY. (tileX < gridSize \<and> tileY < gridSize
          \<and> in_tile (tile_bounds width height gridSize tileX tileY) x y)
     \<longleftrightarrow> (tileX = ?tx \<and> tileY = ?ty)"
    by (rule in_tile_bounds_iff [OF pos assms(1,2,3)])
  have tx: "?tx < gridSize" and ty: "?ty < gridSize"
    and here: "in_tile (tile_bounds width height gridSize ?tx ?ty) x y"
    using own [of ?tx ?ty] by simp_all
  have inb: "(y * width + x) * 4 + 3 < length pixels"
    using pixel_in_buffer [OF assms(2,3,4), of 3] by simp
  have row_len: "length (fold (?A tileY) [0..<gridSize] s) = length s" for tileY s
    by (intro fold_length) simp
  have "fold (\<lambda>tileY. fold (?A tileY) [0..<gridSize]) [0..<gridSize] ?res0 ! ?n = ?v"
  proof (rule fold_sets [where k = ?ty and l = "length pixels"])
    show "?ty \<in> set [0..<gridSize]" using ty by simp
    show "length ?res0 = length pixels" by simp
    show "length (fold (?A tileY) [0..<gridSize] s) = length s" for tileY s
      by (rule row_len)
  next
    fix s :: "nat list" assume len: "length s = length pixels"
    show "fold (?A ?ty) [0..<gridSize] s ! ?n = ?v"
    proof (rule fold_sets [where k = ?tx and l = "length pixels"])
      show "?tx \<in> set [0..<gridSize]" using tx by simp
      show "length s = length pixels" by (rule len)
      show "length (?A ?ty tileX t) = length t" for tileX t by simp
    next
      fix t :: "nat list" assume "length t = length pixels"
      then have "(y * width + x) * 4 + 3 < length t" using inb by simp
      then show "?A ?ty ?tx t ! ?n = ?v"
        by (rule apply_lut_hit [OF here _ assms(5)])
    next
      fix tileX and t :: "nat list"
      assume "tileX \<in> set [0..<gridSize]" "tileX \<noteq> ?tx"
      then have "\<not> in_tile (tile_bounds width height gridSize tileX ?ty) x y"
        using own [of tileX ?ty] ty by simp
      then show "?A ?ty tileX t ! ?n = t ! ?n"
        using assms(2,5) by (intro apply_lut_miss) simp_all
    qed
  next
    fix tileY and s :: "nat list"
    assume tY: "tileY \<in> set [0..<gridSize]" "tileY \<noteq> ?ty"
    show "fold (?A tileY) [0..<gridSize] s ! ?n = s ! ?n"
    proof (rule fold_keeps)
      fix tileX and t :: "nat list"
      assume "tileX \<in> set [0..<gridSize]"
      then have "\<not> in_tile (tile_bounds width height gridSize tileX tileY) x y"
        using own [of tileX tileY] tY by simp
      then show "?A tileY tileX t ! ?n = t ! ?n"
        using assms(2,5) by (intro apply_lut_miss) simp_all
    qed
  qed
  moreover have "length (fold (\<lambda>tileY. fold (?A tileY) [0..<gridSize]) [0..<gridSize] ?res0)
      = length pixels"
    using fold_length [of "[0..<gridSize]" "\<lambda>tileY. fold (?A tileY) [0..<gridSize]" ?res0] row_len
    by simp
  ultimately show ?thesis
    by (simp add: clahe_body_fold)
qed

subsection \<open>Tiles are independent\<close>

lemma item_cong:
  assumes "length a = length b" "i < length a \<Longrightarrow> a ! i = b ! i"
  shows "item a i = item b i"
  using assms by (simp add: item_def)

lemma luma_cong:
  assumes "length a = length b"
    and "\<And>j. j < 3 \<Longrightarrow> idx + j < length a \<Longrightarrow> a ! (idx + j) = b ! (idx + j)"
  shows "luma a idx = luma b idx"
proof -
  have "item a (idx + j) = item b (idx + j)" if "j < 3" for j
    using assms that by (intro item_cong) simp_all
  from this [of 0] this [of 1] this [of 2] show ?thesis
    by (simp add: luma_def)
qed

lemma getTileHistogram_cong:
  assumes "length a = length b"
    and "\<And>x y j. x1 \<le> x \<Longrightarrow> x < x2 \<Longrightarrow> y1 \<le> y \<Longrightarrow> y < y2 \<Longrightarrow> j < 3
            \<Longrightarrow> (y * width + x) * 4 + j < length a
            \<Longrightarrow> a ! ((y * width + x) * 4 + j) = b ! ((y * width + x) * 4 + j)"
  shows "getTileHistogram a width x1 y1 x2 y2 = getTileHistogram b width x1 y1 x2 y2"
proof -
  have row: "fold (\<lambda>x histogram. let idx = (y * width + x) * 4 in bump histogram (luma a idx))
               [x1..<x2]
           = fold (\<lambda>x histogram. let idx = (y * width + x) * 4 in bump histogram (luma b idx))
               [x1..<x2]"
    if "y \<in> set [y1..<y2]" for y
  proof -
    have "luma a ((y * width + x) * 4) = luma b ((y * width + x) * 4)" if "x \<in> set [x1..<x2]" for x
      using assms \<open>y \<in> set [y1..<y2]\<close> that by (intro luma_cong) simp_all
    then have "fold (\<lambda>x histogram. let idx = (y * width + x) * 4 in bump histogram (luma a idx))
               [x1..<x2] h
           = fold (\<lambda>x histogram. let idx = (y * width + x) * 4 in bump histogram (luma b idx))
               [x1..<x2] h" for h
      by (intro fold_cong) (simp_all add: Let_def)
    then show ?thesis by (simp add: fun_eq_iff)
  qed
  show ?thesis
    unfolding getTileHistogram_def
    by (rule fold_cong [OF refl refl]) (rule row)
qed

lemma tile_lut_cong:
  assumes "length a = length b"
    and "\<And>x y j. in_tile tile x y \<Longrightarrow> j < 3 \<Longrightarrow> (y * width + x) * 4 + j < length a
            \<Longrightarrow> a ! ((y * width + x) * 4 + j) = b ! ((y * width + x) * 4 + j)"
  shows "tile_lut a width clipLimit tile = tile_lut b width clipLimit tile"
proof -
  obtain x1 y1 x2 y2 where t: "tile = (x1, y1, x2, y2)" by (cases tile) auto
  have "getTileHistogram a width x1 y1 x2 y2 = getTileHistogram b width x1 y1 x2 y2"
    using assms by (intro getTileHistogram_cong) (simp_all add: t in_tile_def)
  then show ?thesis by (simp add: tile_lut_def t)
qed

text \<open>
  C6. Take two well-formed buffers of the same dimensions that agree on every pixel outside
  one tile of the grid. Run with the same clip limit and grid size, \<open>clahe\<close> gives every
  other tile the same lookup table for both buffers, and the two outputs agree on every
  pixel outside that tile: the histogram, the lookup table and the remapped pixels of a tile
  depend on the pixels of that tile only.
\<close>

theorem clahe_tile_independence:
  assumes "0 < gridSize" "tileX0 < gridSize" "tileY0 < gridSize"
    and "length pixels = width * height * 4" "length pixels' = width * height * 4"
    and "\<forall>x y j. x < width \<and> y < height \<and> j < 4
            \<and> \<not> in_tile (tile_bounds width height gridSize tileX0 tileY0) x y
          \<longrightarrow> pixels ! ((y * width + x) * 4 + j) = pixels' ! ((y * width + x) * 4 + j)"
  shows "(\<forall>tileX tileY. tileX < gridSize \<and> tileY < gridSize \<and> (tileX, tileY) \<noteq> (tileX0, tileY0)
            \<longrightarrow> tile_lut pixels width clipLimit (tile_bounds width height gridSize tileX tileY)
              = tile_lut pixels' width clipLimit (tile_bounds width height gridSize tileX tileY))
       \<and> (\<exists>result result'.
             clahe (Some pixels) width height (Some clipLimit) (Some gridSize) = Inr result
           \<and> clahe (Some pixels') width height (Some clipLimit) (Some gridSize) = Inr result'
           \<and> (\<forall>x y j. x < width \<and> y < height \<and> j < 4
                  \<and> \<not> in_tile (tile_bounds width height gridSize tileX0 tileY0) x y
                \<longrightarrow> result ! ((y * width + x) * 4 + j) = result' ! ((y * width + x) * 4 + j)))"
proof -
  let ?T0 = "tile_bounds width height gridSize tileX0 tileY0"
  have len: "length pixels = length pixels'" using assms(4,5) by simp
  have agree: "pixels ! ((y * width + x) * 4 + j) = pixels' ! ((y * width + x) * 4 + j)"
    if "x < width" "y < height" "j < 4" "\<not> in_tile ?T0 x y" for x y j
    using assms(6) that by blast
  have other: "\<not> in_tile ?T0 x y"
    if "tileX < gridSize" "tileY < gridSize" "(tileX, tileY) \<noteq> (tileX0, tileY0)"
      "in_tile (tile_bounds width height gridSize tileX tileY) x y" for tileX tileY x y
  proof
    assume "in_tile ?T0 x y"
    have xy: "x < width" "y < height" using in_tile_inside [OF that(4)] by simp_all
    then have pos: "0 < width" "0 < height" by simp_all
    have "tileX = x div tile_size width gridSize \<and> tileY = y div tile_size height gridSize"
      using in_tile_bounds_iff [OF pos assms(1) xy, of tileX tileY] that by simp
    moreover have "tileX0 = x div tile_size width gridSize \<and> tileY0 = y div tile_size height gridSize"
      using in_tile_bounds_iff [OF pos assms(1) xy, of tileX0 tileY0] assms(2,3) \<open>in_tile ?T0 x y\<close>
      by simp
    ultimately show False using that(3) by simp
  qed
  have luts: "tile_lut pixels width clipLimit (tile_bounds width height gridSize tileX tileY)
            = tile_lut pixels' width clipLimit (tile_bounds width height gridSize tileX tileY)"
    if "tileX < gridSize" "tileY < gridSize" "(tileX, tileY) \<noteq> (tileX0, tileY0)" for tileX tileY
  proof (rule tile_lut_cong [OF len])
    fix x y j :: nat
    assume t: "in_tile (tile_bounds width height gridSize tileX tileY) x y" and j: "j < 3"
    have "x < width" "y < height" using in_tile_inside [OF t] by simp_all
    moreover have "\<not> in_tile ?T0 x y" using other [OF that t] .
    ultimately show "pixels ! ((y * width + x) * 4 + j) = pixels' ! ((y * width + x) * 4 + j)"
      using j by (intro agree) simp_all
  qed
  have out: "\<exists>result result'.
             clahe (Some pixels) width height (Some clipLimit) (Some gridSize) = Inr result
           \<and> clahe (Some pixels') width height (Some clipLimit) (Some gridSize) = Inr result'
           \<and> (\<forall>x y j. x < width \<and> y < height \<and> j < 4 \<and> \<not> in_tile ?T0 x y
                \<longrightarrow> result ! ((y * width + x) * 4 + j) = result' ! ((y * width + x) * 4 + j))"
  proof -
    obtain result where r: "clahe_body pixels width height clipLimit gridSize = Inr result"
      using clahe_body_fold by blast
    obtain result' where r': "clahe_body pixels' width height clipLimit gridSize = Inr result'"
      using clahe_body_fold by blast
    have "result ! ((y * width + x) * 4 + j) = result' ! ((y * width + x) * 4 + j)"
      if xy: "x < width" "y < height" and j: "j < 4" and out: "\<not> in_tile ?T0 x y" for x y j
    proof -
      let ?tx = "x div tile_size width gridSize" and ?ty = "y div tile_size height gridSize"
      have pos: "0 < width" "0 < height" using xy by simp_all
      have own: "?tx < gridSize \<and> ?ty < gridSize
          \<and> in_tile (tile_bounds width height gridSize ?tx ?ty) x y"
        using in_tile_bounds_iff [OF pos assms(1) xy, of ?tx ?ty] by simp
      then have ne: "(?tx, ?ty) \<noteq> (tileX0, tileY0)" using out by auto
      have lut: "tile_lut pixels width clipLimit (tile_bounds width height gridSize ?tx ?ty)
            = tile_lut pixels' width clipLimit (tile_bounds width height gridSize ?tx ?ty)"
        using own ne by (intro luts) simp_all
      have it: "item pixels ((y * width + x) * 4 + i) = item pixels' ((y * width + x) * 4 + i)"
        if "i < 4" for i
        using len agree [OF xy that out] by (intro item_cong) simp_all
      have "result ! ((y * width + x) * 4 + j) =
          [lookup8 (projr (tile_lut pixels width clipLimit (tile_bounds width height gridSize ?tx ?ty)))
             (item pixels ((y * width + x) * 4)),
           lookup8 (projr (tile_lut pixels width clipLimit (tile_bounds width height gridSize ?tx ?ty)))
             (item pixels ((y * width + x) * 4 + 1)),
           lookup8 (projr (tile_lut pixels width clipLimit (tile_bounds width height gridSize ?tx ?ty)))
             (item pixels ((y * width + x) * 4 + 2)),
           copy8 (item pixels ((y * width + x) * 4 + 3))] ! j"
        using clahe_body_pixel [OF assms(1) xy assms(4) j, of clipLimit] r by simp
      moreover have "result' ! ((y * width + x) * 4 + j) =
          [lookup8 (projr (tile_lut pixels' width clipLimit (tile_bounds width height gridSize ?tx ?ty)))
             (item pixels' ((y * width + x) * 4)),
           lookup8 (projr (tile_lut pixels' width clipLimit (tile_bounds width height gridSize ?tx ?ty)))
             (item pixels' ((y * width + x) * 4 + 1)),
           lookup8 (projr (tile_lut pixels' width clipLimit (tile_bounds width height gridSize ?tx ?ty)))
             (item pixels' ((y * width + x) * 4 + 2)),
           copy8 (item pixels' ((y * width + x) * 4 + 3))] ! j"
        using clahe_body_pixel [OF assms(1) xy assms(5) j, of clipLimit] r' by simp
      ultimately show ?thesis
        using lut it [of 0] it [of 1] it [of 2] it [of 3] by simp
    qed
    then show ?thesis using r r' by (simp add: clahe_def)
  qed
  show ?thesis using luts out by blast
qed

theorem clahe_tile_independence_witness:
  "(0::nat) < 2
   \<and> length [10, 20, 30, 255, 40, 50, 60, 255::nat] = 2 * 1 * 4
   \<and> length [99, 98, 97, 200, 40, 50, 60, 255::nat] = 2 * 1 * 4
   \<and> \<not> in_tile (tile_bounds 2 1 2 0 0) 1 0
   \<and> tile_lut [10, 20, 30, 255, 40, 50, 60, 255] 2 2 (tile_bounds 2 1 2 1 0)
       = tile_lut [99, 98, 97, 200, 40, 50, 60, 255] 2 2 (tile_bounds 2 1 2 1 0)
   \<and> (\<exists>result result'.
         clahe (Some [10, 20, 30, 255, 40, 50, 60, 255]) 2 1 (Some 2) (Some 2) = Inr result
       \<and> clahe (Some [99, 98, 97, 200, 40, 50, 60, 255]) 2 1 (Some 2) (Some 2) = Inr result'
       \<and> result ! ((0 * 2 + 1) * 4 + 3) = result' ! ((0 * 2 + 1) * 4 + 3))"
proof -
  have g: "(0::nat) < 2" by simp
  have la: "length [10, 20, 30, 255, 40, 50, 60, 255::nat] = 2 * 1 * 4" by simp
  have lb: "length [99, 98, 97, 200, 40, 50, 60, 255::nat] = 2 * 1 * 4" by simp
  have half: "\<lceil>(1::real) / 2\<rceil> = 1" by (simp add: ceiling_eq_iff)
  have t0: "tile_bounds 2 1 2 0 0 = (0, 0, 1, 1)"
    by (simp add: tile_bounds_def tile_size_def half)
  have agree: "\<forall>x y j. x < 2 \<and> y < 1 \<and> j < 4 \<and> \<not> in_tile (tile_bounds 2 1 2 0 0) x y
          \<longrightarrow> [10, 20, 30, 255, 40, 50, 60, 255::nat] ! ((y * 2 + x) * 4 + j)
            = [99, 98, 97, 200, 40, 50, 60, 255] ! ((y * 2 + x) * 4 + j)"
  proof (intro allI impI)
    fix x y j :: nat
    assume a: "x < 2 \<and> y < 1 \<and> j < 4 \<and> \<not> in_tile (tile_bounds 2 1 2 0 0) x y"
    then have "x < 2 \<and> y < 1 \<and> j < 4 \<and> \<not> in_tile (0, 0, 1, 1) x y" unfolding t0 .
    then have "y = 0" "x = 1" by (auto simp: in_tile_def)
    moreover have "j = 0 \<or> j = 1 \<or> j = 2 \<or> j = 3" using a by auto
    ultimately show "[10, 20, 30, 255, 40, 50, 60, 255::nat] ! ((y * 2 + x) * 4 + j)
            = [99, 98, 97, 200, 40, 50, 60, 255] ! ((y * 2 + x) * 4 + j)"
      by auto
  qed
  have other: "(1::nat) < 2 \<and> (0::nat) < 2 \<and> (1, 0) \<noteq> (0::nat, 0::nat)" by simp
  have px: "(1::nat) < 2 \<and> (0::nat) < 1 \<and> (3::nat) < 4 \<and> \<not> in_tile (tile_bounds 2 1 2 0 0) 1 0"
    unfolding t0 by (simp add: in_tile_def)
  note ind = clahe_tile_independence [OF g g g la lb agree, of 2]
  have luts: "tile_lut [10, 20, 30, 255, 40, 50, 60, 255] 2 2 (tile_bounds 2 1 2 1 0)
       = tile_lut [99, 98, 97, 200, 40, 50, 60, 255] 2 2 (tile_bounds 2 1 2 1 0)"
    using ind [THEN conjunct1, rule_format, of 1 0] other by simp
  obtain result result' where r:
      "clahe (Some [10, 20, 30, 255, 40, 50, 60, 255]) 2 1 (Some 2) (Some 2) = Inr result"
      "clahe (Some [99, 98, 97, 200, 40, 50, 60, 255]) 2 1 (Some 2) (Some 2) = Inr result'"
      "\<forall>x y j. x < 2 \<and> y < 1 \<and> j < 4 \<and> \<not> in_tile (tile_bounds 2 1 2 0 0) x y
              \<longrightarrow> result ! ((y * 2 + x) * 4 + j) = result' ! ((y * 2 + x) * 4 + j)"
    using ind [THEN conjunct2] by (elim exE conjE)
  have "result ! ((0 * 2 + 1) * 4 + 3) = result' ! ((0 * 2 + 1) * 4 + 3)"
    using r(3) [rule_format, of 1 0 3] px by simp
  then have outs: "\<exists>result result'.
         clahe (Some [10, 20, 30, 255, 40, 50, 60, 255]) 2 1 (Some 2) (Some 2) = Inr result
       \<and> clahe (Some [99, 98, 97, 200, 40, 50, 60, 255]) 2 1 (Some 2) (Some 2) = Inr result'
       \<and> result ! ((0 * 2 + 1) * 4 + 3) = result' ! ((0 * 2 + 1) * 4 + 3)"
    using r(1,2) by (intro exI conjI)
  show ?thesis
    using g la lb px luts outs by (intro conjI) simp_all
qed

subsection \<open>The lookup table of a uniform tile\<close>












subsection \<open>A missing buffer\<close>

text \<open>
  C9. A missing buffer: \<open>equalize\<close>, \<open>clahe\<close>, \<open>getHistogram\<close>, \<open>gammaCorrection\<close>,
  \<open>sobel\<close>, \<open>prewitt\<close>, \<open>laplacian\<close> and \<open>canny\<close> throw their invalid-input error, whatever
  the other arguments. \<open>sigmoidContrast\<close> has no check of the buffer: with a contrast in
  range, \<open>sigmoidContrast(null, 0.5)\<close> fails with the engine's \<open>TypeError\<close> on
  \<open>pixels.length\<close> instead.
\<close>

theorem sigmoidContrast_null_buffer:
  "sigmoidContrast None (Some (1 / 2)) = Inl TypeError
   \<and> equalize None w h = Inl (InvalidInput ''Invalid equalization parameters'')
   \<and> clahe None width height cl g = Inl (InvalidInput ''Invalid CLAHE parameters'')
   \<and> getHistogram None w h = Inl (InvalidInput ''Invalid histogram parameters'')
   \<and> gammaCorrection None gm = Inl (InvalidInput ''Invalid gamma value'')
   \<and> sobel None w h = Inl (InvalidInput ''Invalid edge detection parameters'')
   \<and> prewitt None w h = Inl (InvalidInput ''Invalid edge detection parameters'')
   \<and> laplacian None w h = Inl (InvalidInput ''Invalid edge detection parameters'')
   \<and> canny None w h lo hi = Inl (InvalidInput ''Invalid edge detection parameters'')"
  by (simp add: sigmoidContrast_def equalize_def clahe_def getHistogram_def gammaCorrection_def
      sobel_def prewitt_def laplacian_def canny_def)

subsection \<open>The gradient sums of an interior pixel\<close>

lemma mean_gray_defined:
  assumes "idx + 3 \<le> length pixels"
  shows "mean_gray pixels idx =
     Some ((real (pixels ! idx) + real (pixels ! (idx + 1)) + real (pixels ! (idx + 2))) / 3)"
  using assms by (simp add: mean_gray_def item_def)

lemma neighbour_index:
  fixes x y w :: nat and a b :: nat
  assumes "1 \<le> x" "1 \<le> y"
  shows "nat ((int y + (int a - 1)) * int w + (int x + (int b - 1))) = (y + a - 1) * w + (x + b - 1)"
proof -
  have "int y + (int a - 1) = int (y + a - 1)" "int x + (int b - 1) = int (x + b - 1)"
    using assms by simp_all
  then have "(int y + (int a - 1)) * int w + (int x + (int b - 1))
      = int ((y + a - 1) * w + (x + b - 1))"
    by simp
  then show ?thesis by (metis nat_int)
qed

lemma neighbour_gray:
  fixes x y w h :: nat and a b :: nat
  assumes "1 \<le> x" "x + 1 < w" "1 \<le> y" "y + 1 < h" "length pixels = w * h * 4" "a < 3" "b < 3"
  shows "mean_gray pixels (nat ((int y + (int a - 1)) * int w + (int x + (int b - 1))) * 4)
     = Some (spec_gray_mean pixels w (x + b - 1) (y + a - 1))"
proof -
  have "x + b - 1 < w" "y + a - 1 < h" using assms by simp_all
  then have "((y + a - 1) * w + (x + b - 1)) * 4 + 3 < length pixels"
    using assms(5) by (intro pixel_in_buffer) simp_all
  then show ?thesis
    by (simp add: neighbour_index [OF assms(1,3)] mean_gray_defined spec_gray_mean_def Let_def
        del: One_nat_def)
qed

lemma gradient_sums_interior:
  fixes x y w h :: nat
  assumes "1 \<le> x" "x + 1 < w" "1 \<le> y" "y + 1 < h" "length pixels = w * h * 4"
    and "length gx = 9" "length gy = 9"
  shows "gradient_sums pixels w gx gy y x =
     (Some (spec_convolve3 (spec_gray_mean pixels w) gx x y),
      Some (spec_convolve3 (spec_gray_mean pixels w) gy x y))"
proof -
  note nb = neighbour_gray [OF assms(1-5)]
  have g: "mean_gray pixels (nat ((int y + - 1) * int w + (int x + - 1)) * 4)
             = Some (spec_gray_mean pixels w (x - 1) (y - 1))"
      "mean_gray pixels (nat ((int y + - 1) * int w + (int x + 0)) * 4)
             = Some (spec_gray_mean pixels w x (y - 1))"
      "mean_gray pixels (nat ((int y + - 1) * int w + (int x + 1)) * 4)
             = Some (spec_gray_mean pixels w (x + 1) (y - 1))"
      "mean_gray pixels (nat ((int y + 0) * int w + (int x + - 1)) * 4)
             = Some (spec_gray_mean pixels w (x - 1) y)"
      "mean_gray pixels (nat ((int y + 0) * int w + (int x + 0)) * 4)
             = Some (spec_gray_mean pixels w x y)"
      "mean_gray pixels (nat ((int y + 0) * int w + (int x + 1)) * 4)
             = Some (spec_gray_mean pixels w (x + 1) y)"
      "mean_gray pixels (nat ((int y + 1) * int w + (int x + - 1)) * 4)
             = Some (spec_gray_mean pixels w (x - 1) (y + 1))"
      "mean_gray pixels (nat ((int y + 1) * int w + (int x + 0)) * 4)
             = Some (spec_gray_mean pixels w x (y + 1))"
      "mean_gray pixels (nat ((int y + 1) * int w + (int x + 1)) * 4)
             = Some (spec_gray_mean pixels w (x + 1) (y + 1))"
    using nb [of 0 0] nb [of 0 1] nb [of 0 2] nb [of 1 0] nb [of 1 1] nb [of 1 2]
      nb [of 2 0] nb [of 2 1] nb [of 2 2]
    by simp_all
  show ?thesis
    unfolding gradient_sums_def spec_convolve3_def
    by (simp only: fold_simps g Let_def prod.case id_apply comp_apply)
       (simp add: coeff_def nan_add_def nan_mul_def assms(6,7) algebra_simps
          numeral_2_eq_2 [symmetric])
qed

subsection \<open>The output of the gradient operators, pixel by pixel\<close>

lemma copy8_byte:
  assumes "n < length pixels" "pixels ! n \<le> 255"
  shows "copy8 (item pixels n) = pixels ! n"
  using assms by (simp add: copy8_def item_def store8_def to_uint8_clamp_nat)

lemma magnitude_of_Some:
  "magnitude_of (Some a, Some b) = Some (sqrt (a\<^sup>2 + b\<^sup>2))"
  by (simp add: magnitude_of_def nan_add_def nan_mul_def power2_eq_square)

lemma length_applyGradient:
  "length (applyGradient pixels width height gx gy) = length pixels"
  unfolding applyGradient_def Let_def by (simp only: paint_length length_replicate)

lemma interior_rows:
  fixes y h :: nat
  shows "y \<in> set [1..<h - 1] \<longleftrightarrow> 1 \<le> y \<and> y + 1 < h"
  by auto

lemma applyGradient_interior:
  fixes x y width height :: nat
  assumes "1 \<le> x" "x + 1 < width" "1 \<le> y" "y + 1 < height"
    and "length pixels = width * height * 4" "length gx = 9" "length gy = 9" "j < 4"
  shows "applyGradient pixels width height gx gy ! ((y * width + x) * 4 + j) =
     [to_uint8_clamp (max 0 (min 255 (spec_gradient_magnitude (spec_gray_mean pixels width) gx gy x y))),
      to_uint8_clamp (max 0 (min 255 (spec_gradient_magnitude (spec_gray_mean pixels width) gx gy x y))),
      to_uint8_clamp (max 0 (min 255 (spec_gradient_magnitude (spec_gray_mean pixels width) gx gy x y))),
      copy8 (item pixels ((y * width + x) * 4 + 3))] ! j"
proof -
  have xy: "x < width" "y < height" using assms(2,4) by simp_all
  have inb: "(y * width + x) * 4 + 3 < length (replicate (length pixels) (0::nat))"
    using pixel_in_buffer [OF xy assms(5), of 3] by simp
  have rows: "y \<in> set [1..<height - 1]" and cols: "x \<in> set [1..<width - 1]"
    using assms(1-4) by (simp_all add: interior_rows)
  have edge: "\<And>x'. x' \<in> set [1..<width - 1] \<Longrightarrow> x' < width" by auto
  have v: "store8 (map_option (\<lambda>m. max 0 (min 255 m))
             (magnitude_of (gradient_sums pixels width gx gy y x)))
        = to_uint8_clamp (max 0 (min 255
             (spec_gradient_magnitude (spec_gray_mean pixels width) gx gy x y)))"
    by (simp add: gradient_sums_interior [OF assms(1-7)] magnitude_of_Some store8_def
        spec_gradient_magnitude_def)
  show ?thesis
    unfolding applyGradient_def Let_def
    by (simp only: paint_hit [OF rows cols edge inb assms(8)] v)
qed

lemma applyGradient_border:
  fixes x y width height :: nat
  assumes "x < width" "\<not> (1 \<le> x \<and> x + 1 < width \<and> 1 \<le> y \<and> y + 1 < height)"
    and "(y * width + x) * 4 + j < length pixels" "j < 4"
  shows "applyGradient pixels width height gx gy ! ((y * width + x) * 4 + j) = 0"
proof -
  have out: "\<not> (y \<in> set [1..<height - 1] \<and> x \<in> set [1..<width - 1])"
    using assms(2) unfolding interior_rows by blast
  have edge: "\<And>x'. x' \<in> set [1..<width - 1] \<Longrightarrow> x' < width" by auto
  show ?thesis
    unfolding applyGradient_def Let_def
    using assms(3) by (simp only: paint_miss [OF assms(1) edge out assms(4)]) simp
qed

lemma length_laplacian_body:
  "length (laplacian_body pixels width height) = length pixels"
  unfolding laplacian_body_def Let_def by (simp only: paint_length length_replicate)

lemma laplacian_interior_alpha:
  fixes x y width height :: nat
  assumes "1 \<le> x" "x + 1 < width" "1 \<le> y" "y + 1 < height"
    and "length pixels = width * height * 4"
  shows "laplacian_body pixels width height ! ((y * width + x) * 4 + 3)
           = copy8 (item pixels ((y * width + x) * 4 + 3))"
proof -
  have xy: "x < width" "y < height" using assms(2,4) by simp_all
  have inb: "(y * width + x) * 4 + 3 < length (replicate (length pixels) (0::nat))"
    using pixel_in_buffer [OF xy assms(5), of 3] by simp
  have rows: "y \<in> set [1..<height - 1]" and cols: "x \<in> set [1..<width - 1]"
    using assms(1-4) by (simp_all add: interior_rows)
  have edge: "\<And>x'. x' \<in> set [1..<width - 1] \<Longrightarrow> x' < width" by auto
  have three: "(3::nat) < 4" by simp
  show ?thesis
    unfolding laplacian_body_def Let_def
    by (simp only: paint_hit [OF rows cols edge inb three]) simp
qed

lemma laplacian_border:
  fixes x y width height :: nat
  assumes "x < width" "\<not> (1 \<le> x \<and> x + 1 < width \<and> 1 \<le> y \<and> y + 1 < height)"
    and "(y * width + x) * 4 + j < length pixels" "j < 4"
  shows "laplacian_body pixels width height ! ((y * width + x) * 4 + j) = 0"
proof -
  have out: "\<not> (y \<in> set [1..<height - 1] \<and> x \<in> set [1..<width - 1])"
    using assms(2) unfolding interior_rows by blast
  have edge: "\<And>x'. x' \<in> set [1..<width - 1] \<Longrightarrow> x' < width" by auto
  show ?thesis
    unfolding laplacian_body_def Let_def
    using assms(3) by (simp only: paint_miss [OF assms(1) edge out assms(4)]) simp
qed

subsection \<open>The alpha channel of equalize and clahe\<close>

lemma by4_pixels: "set (by4 n) = {p * 4 |p. p * 4 < n}"
proof -
  have "p < (n + 3) div 4 \<longleftrightarrow> p * 4 < n" for p by arith
  then show ?thesis by (auto simp: by4_def mult.commute)
qed

lemma length_equalize_body:
  "length (equalize_body pixels width height) = length pixels"
  unfolding equalize_body_def Let_def by (simp only: write4_length length_replicate)

lemma equalize_alpha:
  assumes "p * 4 + 3 < length pixels"
  shows "equalize_body pixels width height ! (p * 4 + 3) = copy8 (item pixels (p * 4 + 3))"
proof -
  have key: "p * 4 \<in> set (by4 (length pixels))"
    using assms by (auto simp: by4_pixels)
  have inb: "p * 4 + 3 < length (replicate (length pixels) (0::nat))" using assms by simp
  have three: "(3::nat) < 4" by simp
  have apart: "p * 4 + 3 < k' \<or> k' + 3 < p * 4 + 3"
    if "k' \<in> set (by4 (length pixels))" "k' \<noteq> p * 4" for k'
  proof -
    from that(1) have "k' \<in> {p * 4 |p. p * 4 < length pixels}" by (simp only: by4_pixels)
    then obtain q where q: "k' = q * 4" by blast
    then have "p \<noteq> q" using that(2) by auto
    then show ?thesis
      unfolding q by (intro pixel_cells_apart) simp_all
  qed
  show ?thesis
    unfolding equalize_body_def Let_def
    using write4_hit [where ix = "\<lambda>k. k", OF key inb three apart] by simp
qed

lemma clahe_alpha:
  assumes "0 < gridSize" "x < width" "y < height" "length pixels = width * height * 4"
  shows "\<exists>result. clahe_body pixels width height clipLimit gridSize = Inr result
      \<and> length result = length pixels
      \<and> result ! ((y * width + x) * 4 + 3) = copy8 (item pixels ((y * width + x) * 4 + 3))"
proof -
  have three: "(3::nat) < 4" by simp
  show ?thesis
    using clahe_body_pixel [OF assms three, of clipLimit] by auto
qed

subsection \<open>The alpha channel\<close>

text \<open>
  Where the alpha channel is preserved. For a well-formed buffer of bytes and a pixel
  \<open>(x, y)\<close> of it: \<open>equalize\<close> and \<open>clahe\<close> (positive grid size) return the alpha of the
  pixel unchanged. \<open>sobel\<close>, \<open>prewitt\<close> and \<open>laplacian\<close> return it unchanged when the pixel
  is an interior one, with all eight neighbours inside the image; they never write a pixel
  of the first or last row or column, whose alpha stays the 0 the output was allocated with.
\<close>

theorem alpha_preserved_where_written:
  assumes "length pixels = width * height * 4" "list_all (\<lambda>b. b \<le> 255) pixels"
    and "x < width" "y < height" "0 < gridSize"
  shows "(\<exists>out. equalize (Some pixels) (Some width) (Some height) = Inr out
            \<and> out ! ((y * width + x) * 4 + 3) = pixels ! ((y * width + x) * 4 + 3))
       \<and> (\<exists>out. clahe (Some pixels) width height (Some clipLimit) (Some gridSize) = Inr out
            \<and> out ! ((y * width + x) * 4 + 3) = pixels ! ((y * width + x) * 4 + 3))
       \<and> (\<exists>out. sobel (Some pixels) (Some width) (Some height) = Inr out
            \<and> out ! ((y * width + x) * 4 + 3) =
                (if 1 \<le> x \<and> x + 1 < width \<and> 1 \<le> y \<and> y + 1 < height
                 then pixels ! ((y * width + x) * 4 + 3) else 0))
       \<and> (\<exists>out. prewitt (Some pixels) (Some width) (Some height) = Inr out
            \<and> out ! ((y * width + x) * 4 + 3) =
                (if 1 \<le> x \<and> x + 1 < width \<and> 1 \<le> y \<and> y + 1 < height
                 then pixels ! ((y * width + x) * 4 + 3) else 0))
       \<and> (\<exists>out. laplacian (Some pixels) (Some width) (Some height) = Inr out
            \<and> out ! ((y * width + x) * 4 + 3) =
                (if 1 \<le> x \<and> x + 1 < width \<and> 1 \<le> y \<and> y + 1 < height
                 then pixels ! ((y * width + x) * 4 + 3) else 0))"
proof -
  let ?n = "(y * width + x) * 4 + 3"
  have three: "(3::nat) < 4" by simp
  have inb: "?n < length pixels"
    using pixel_in_buffer [OF assms(3,4,1) three] .
  then have byte: "pixels ! ?n \<le> 255" using assms(2) by (simp add: list_all_length)
  have copy: "copy8 (item pixels ?n) = pixels ! ?n"
    using inb byte by (rule copy8_byte)
  have eq: "equalize_body pixels width height ! ?n = pixels ! ?n"
    using equalize_alpha [of "y * width + x" pixels width height] inb copy by simp
  obtain out where cl: "clahe_body pixels width height clipLimit gridSize = Inr out"
      "out ! ?n = copy8 (item pixels ?n)"
    using clahe_alpha [OF assms(5,3,4,1), of clipLimit] by blast
  have grad: "applyGradient pixels width height gx gy ! ?n =
      (if 1 \<le> x \<and> x + 1 < width \<and> 1 \<le> y \<and> y + 1 < height then pixels ! ?n else 0)"
    if "length gx = 9" "length gy = 9" for gx gy
  proof (cases "1 \<le> x \<and> x + 1 < width \<and> 1 \<le> y \<and> y + 1 < height")
    case True
    have "applyGradient pixels width height gx gy ! ?n = copy8 (item pixels ?n)"
      using applyGradient_interior [of x width y height pixels gx gy 3] True that assms(1)
      by simp
    then show ?thesis
      unfolding if_P [OF True] by (simp only: copy)
  next
    case False
    show ?thesis
      unfolding if_not_P [OF False]
      by (rule applyGradient_border [OF assms(3) False inb three])
  qed
  have lap: "laplacian_body pixels width height ! ?n =
      (if 1 \<le> x \<and> x + 1 < width \<and> 1 \<le> y \<and> y + 1 < height then pixels ! ?n else 0)"
  proof (cases "1 \<le> x \<and> x + 1 < width \<and> 1 \<le> y \<and> y + 1 < height")
    case True
    have "laplacian_body pixels width height ! ?n = copy8 (item pixels ?n)"
      using laplacian_interior_alpha [of x width y height pixels] True assms(1) by simp
    then show ?thesis
      unfolding if_P [OF True] by (simp only: copy)
  next
    case False
    show ?thesis
      unfolding if_not_P [OF False]
      by (rule laplacian_border [OF assms(3) False inb three])
  qed
  have sob: "applyGradient pixels width height sobel_gx sobel_gy ! ?n =
      (if 1 \<le> x \<and> x + 1 < width \<and> 1 \<le> y \<and> y + 1 < height then pixels ! ?n else 0)"
    by (rule grad) (simp_all add: sobel_gx_def sobel_gy_def)
  have pre: "applyGradient pixels width height prewitt_gx prewitt_gy ! ?n =
      (if 1 \<le> x \<and> x + 1 < width \<and> 1 \<le> y \<and> y + 1 < height then pixels ! ?n else 0)"
    by (rule grad) (simp_all add: prewitt_gx_def prewitt_gy_def)
  show ?thesis
    using eq cl copy sob pre lap
    by (simp add: equalize_def clahe_def sobel_def prewitt_def laplacian_def)
qed

lemma edge3x3_wellformed:
  "length edge3x3 = 3 * 3 * 4" "list_all (\<lambda>b. b \<le> 255) edge3x3"
  by (simp_all add: edge3x3_def)

theorem alpha_preserved_where_written_witness:
  "length edge3x3 = 3 * 3 * 4 \<and> list_all (\<lambda>b. b \<le> 255) edge3x3
   \<and> (1::nat) < 3 \<and> (1::nat) < 3 \<and> (0::nat) < 2
   \<and> (\<exists>out. equalize (Some edge3x3) (Some 3) (Some 3) = Inr out
            \<and> out ! ((1 * 3 + 1) * 4 + 3) = edge3x3 ! ((1 * 3 + 1) * 4 + 3))
   \<and> (\<exists>out. clahe (Some edge3x3) 3 3 (Some 2) (Some 2) = Inr out
            \<and> out ! ((1 * 3 + 1) * 4 + 3) = edge3x3 ! ((1 * 3 + 1) * 4 + 3))
   \<and> (\<exists>out. sobel (Some edge3x3) (Some 3) (Some 3) = Inr out
            \<and> out ! ((1 * 3 + 1) * 4 + 3) =
                (if (1::nat) \<le> 1 \<and> (1::nat) + 1 < 3 \<and> (1::nat) \<le> 1 \<and> (1::nat) + 1 < 3
                 then edge3x3 ! ((1 * 3 + 1) * 4 + 3) else 0))
   \<and> (\<exists>out. prewitt (Some edge3x3) (Some 3) (Some 3) = Inr out
            \<and> out ! ((1 * 3 + 1) * 4 + 3) =
                (if (1::nat) \<le> 1 \<and> (1::nat) + 1 < 3 \<and> (1::nat) \<le> 1 \<and> (1::nat) + 1 < 3
                 then edge3x3 ! ((1 * 3 + 1) * 4 + 3) else 0))
   \<and> (\<exists>out. laplacian (Some edge3x3) (Some 3) (Some 3) = Inr out
            \<and> out ! ((1 * 3 + 1) * 4 + 3) =
                (if (1::nat) \<le> 1 \<and> (1::nat) + 1 < 3 \<and> (1::nat) \<le> 1 \<and> (1::nat) + 1 < 3
                 then edge3x3 ! ((1 * 3 + 1) * 4 + 3) else 0))"
proof -
  have h: "(1::nat) < 3" "(1::nat) < 3" "(0::nat) < 2" by simp_all
  show ?thesis
    using alpha_preserved_where_written [OF edge3x3_wellformed h, of 2] edge3x3_wellformed h
    by blast
qed

text \<open>
  C2. The alpha channel is not preserved at a border pixel by the edge-detection
  operations: in the well-formed 3x3 example the top left pixel has alpha 255, and
  \<open>sobel\<close>, \<open>prewitt\<close> and \<open>laplacian\<close> each return alpha 0 for it, as they do for every
  pixel of the first and last row and column.
\<close>

theorem border_alpha_not_preserved:
  "length edge3x3 = 3 * 3 * 4
   \<and> edge3x3 ! 3 = 255
   \<and> sobel (Some edge3x3) (Some 3) (Some 3) = Inr (applyGradient edge3x3 3 3 sobel_gx sobel_gy)
   \<and> applyGradient edge3x3 3 3 sobel_gx sobel_gy ! 3 = 0
   \<and> prewitt (Some edge3x3) (Some 3) (Some 3) = Inr (applyGradient edge3x3 3 3 prewitt_gx prewitt_gy)
   \<and> applyGradient edge3x3 3 3 prewitt_gx prewitt_gy ! 3 = 0
   \<and> laplacian (Some edge3x3) (Some 3) (Some 3) = Inr (laplacian_body edge3x3 3 3)
   \<and> laplacian_body edge3x3 3 3 ! 3 = 0"
proof -
  have "applyGradient edge3x3 3 3 gx gy ! ((0 * 3 + 0) * 4 + 3) = 0" for gx gy
    by (rule applyGradient_border) (simp_all add: edge3x3_def)
  moreover have "laplacian_body edge3x3 3 3 ! ((0 * 3 + 0) * 4 + 3) = 0"
    by (rule laplacian_border) (simp_all add: edge3x3_def)
  ultimately show ?thesis
    by (simp add: sobel_def prewitt_def laplacian_def) (simp add: edge3x3_def)
qed

subsection \<open>The grey value of the gradient operators\<close>

text \<open>
  C3 (amended). For a well-formed buffer and an interior pixel, the red, green and blue
  bytes that \<open>sobel\<close> and \<open>prewitt\<close> return are the clamped magnitude of the 3x3 convolution
  of the grey image with the kernel pair, where the grey value of each sampled neighbour is
  the unweighted mean \<open>(R + G + B) / 3\<close> of its channels.
\<close>

theorem gradient_uses_channel_mean:
  fixes x y width height :: nat
  assumes "length pixels = width * height * 4"
    and "1 \<le> x" "x + 1 < width" "1 \<le> y" "y + 1 < height" "j < 3"
  shows "(\<exists>out. sobel (Some pixels) (Some width) (Some height) = Inr out
            \<and> out ! ((y * width + x) * 4 + j) =
                to_uint8_clamp (max 0 (min 255
                  (spec_gradient_magnitude (spec_gray_mean pixels width) sobel_gx sobel_gy x y))))
       \<and> (\<exists>out. prewitt (Some pixels) (Some width) (Some height) = Inr out
            \<and> out ! ((y * width + x) * 4 + j) =
                to_uint8_clamp (max 0 (min 255
                  (spec_gradient_magnitude (spec_gray_mean pixels width) prewitt_gx prewitt_gy x y))))"
proof -
  have j: "j < 4" "j = 0 \<or> j = 1 \<or> j = 2" using assms(6) by auto
  have "applyGradient pixels width height gx gy ! ((y * width + x) * 4 + j) =
      to_uint8_clamp (max 0 (min 255
        (spec_gradient_magnitude (spec_gray_mean pixels width) gx gy x y)))"
    if "length gx = 9" "length gy = 9" for gx gy
    using applyGradient_interior [OF assms(2-5,1) that j(1)] j(2) by auto
  from this [of sobel_gx sobel_gy] this [of prewitt_gx prewitt_gy]
  show ?thesis
    by (simp add: sobel_def prewitt_def sobel_gx_def sobel_gy_def prewitt_gx_def prewitt_gy_def)
qed

lemma edge3x3_mean_gx: "spec_convolve3 (spec_gray_mean edge3x3 3) sobel_gx 1 1 = 40"
  by (simp add: spec_convolve3_def spec_gray_mean_def sobel_gx_def edge3x3_def)

lemma edge3x3_mean_gy: "spec_convolve3 (spec_gray_mean edge3x3 3) sobel_gy 1 1 = 0"
  by (simp add: spec_convolve3_def spec_gray_mean_def sobel_gy_def edge3x3_def)

lemma edge3x3_luma_gx: "spec_convolve3 (spec_gray_luma edge3x3 3) sobel_gx 1 1 = 897 / 25"
  by (simp add: spec_convolve3_def spec_gray_luma_def sobel_gx_def edge3x3_def)

lemma edge3x3_luma_gy: "spec_convolve3 (spec_gray_luma edge3x3 3) sobel_gy 1 1 = 0"
  by (simp add: spec_convolve3_def spec_gray_luma_def sobel_gy_def edge3x3_def)

lemma sqrt_square_only: "0 \<le> a \<Longrightarrow> sqrt (a\<^sup>2 + 0\<^sup>2) = a"
  by simp

text \<open>
  C3 as stated fails: at the centre of the 3x3 example \<open>sobel\<close> returns 40, the magnitude for
  the channel mean (grey 10 in the right column), while the luma weights
  (grey \<open>0.299 * 30 = 8.97\<close>) would give 36.
\<close>

theorem sobel_differs_from_luma_reading:
  "length edge3x3 = 3 * 3 * 4
   \<and> sobel (Some edge3x3) (Some 3) (Some 3) = Inr (applyGradient edge3x3 3 3 sobel_gx sobel_gy)
   \<and> applyGradient edge3x3 3 3 sobel_gx sobel_gy ! ((1 * 3 + 1) * 4 + 0) = 40
   \<and> to_uint8_clamp (max 0 (min 255
          (spec_gradient_magnitude (spec_gray_luma edge3x3 3) sobel_gx sobel_gy 1 1))) = 36"
proof -
  have len: "length edge3x3 = 3 * 3 * 4" by (simp add: edge3x3_def)
  have mean: "spec_gradient_magnitude (spec_gray_mean edge3x3 3) sobel_gx sobel_gy 1 1 = 40"
    unfolding spec_gradient_magnitude_def edge3x3_mean_gx edge3x3_mean_gy
    by (rule sqrt_square_only) simp
  have luma: "spec_gradient_magnitude (spec_gray_luma edge3x3 3) sobel_gx sobel_gy 1 1 = 897 / 25"
    unfolding spec_gradient_magnitude_def edge3x3_luma_gx edge3x3_luma_gy
    by (rule sqrt_square_only) simp
  have fl: "\<lfloor>(897::real) / 25\<rfloor> = 35" by (simp add: floor_eq_iff)
  have "applyGradient edge3x3 3 3 sobel_gx sobel_gy ! ((1 * 3 + 1) * 4 + 0) =
      to_uint8_clamp (max 0 (min 255
        (spec_gradient_magnitude (spec_gray_mean edge3x3 3) sobel_gx sobel_gy 1 1)))"
    using applyGradient_interior [of 1 3 1 3 edge3x3 sobel_gx sobel_gy 0] len
    by (simp add: sobel_gx_def sobel_gy_def)
  then have code: "applyGradient edge3x3 3 3 sobel_gx sobel_gy ! ((1 * 3 + 1) * 4 + 0) = 40"
    unfolding mean by (simp add: to_uint8_clamp_def)
  have spec: "to_uint8_clamp (max 0 (min 255
          (spec_gradient_magnitude (spec_gray_luma edge3x3 3) sobel_gx sobel_gy 1 1))) = 36"
    unfolding luma by (simp add: to_uint8_clamp_def fl)
  show ?thesis
    using len code spec by (simp add: sobel_def)
qed

theorem gradient_uses_channel_mean_witness:
  "length edge3x3 = 3 * 3 * 4 \<and> (1::nat) \<le> 1 \<and> (1::nat) + 1 < 3 \<and> (0::nat) < 3
   \<and> (\<exists>out. sobel (Some edge3x3) (Some 3) (Some 3) = Inr out
            \<and> out ! ((1 * 3 + 1) * 4 + 0) =
                to_uint8_clamp (max 0 (min 255
                  (spec_gradient_magnitude (spec_gray_mean edge3x3 3) sobel_gx sobel_gy 1 1))))
   \<and> (\<exists>out. prewitt (Some edge3x3) (Some 3) (Some 3) = Inr out
            \<and> out ! ((1 * 3 + 1) * 4 + 0) =
                to_uint8_clamp (max 0 (min 255
                  (spec_gradient_magnitude (spec_gray_mean edge3x3 3) prewitt_gx prewitt_gy 1 1))))"
proof -
  have h: "length edge3x3 = 3 * 3 * 4" "(1::nat) \<le> 1" "(1::nat) + 1 < 3" "(1::nat) \<le> 1"
    "(1::nat) + 1 < 3" "(0::nat) < 3"
    by (simp_all add: edge3x3_def)
  show ?thesis
    using gradient_uses_channel_mean [OF h] h by (intro conjI) simp_all
qed

subsection \<open>Canny: the magnitude array and the classification loop\<close>

text \<open>Rows and columns again, one array cell written per step.\<close>

lemma cells_length:
  "length (fold (\<lambda>y. fold (\<lambda>x m. m[y * w + x := v y x]) xs) ys m0) = length m0"
  by (intro fold_length) simp

lemma cells_miss:
  fixes x y w :: nat
  assumes "x < w" "\<And>x'. x' \<in> set xs \<Longrightarrow> x' < w" "\<not> (y \<in> set ys \<and> x \<in> set xs)"
  shows "fold (\<lambda>y. fold (\<lambda>x m. m[y * w + x := v y x]) xs) ys m0 ! (y * w + x) = m0 ! (y * w + x)"
proof (intro fold_keeps)
  fix y' x' and s :: "'a list"
  assume "y' \<in> set ys" "x' \<in> set xs"
  then have "y' * w + x' \<noteq> y * w + x"
    using grid_index_inj [of x' w x y' y] assms by auto
  then show "s[y' * w + x' := v y' x'] ! (y * w + x) = s ! (y * w + x)" by simp
qed

lemma cells_hit:
  fixes x y w :: nat
  assumes "y \<in> set ys" "x \<in> set xs" "\<And>x'. x' \<in> set xs \<Longrightarrow> x' < w"
    and "y * w + x < length m0"
  shows "fold (\<lambda>y. fold (\<lambda>x m. m[y * w + x := v y x]) xs) ys m0 ! (y * w + x) = v y x"
proof (rule fold_sets [OF assms(1) refl])
  fix y' and s :: "'a list"
  show "length (fold (\<lambda>x m. m[y' * w + x := v y' x]) xs s) = length s"
    by (intro fold_length) simp
next
  fix s :: "'a list" assume len: "length s = length m0"
  show "fold (\<lambda>x m. m[y * w + x := v y x]) xs s ! (y * w + x) = v y x"
  proof (rule fold_sets [OF assms(2) len])
    fix t :: "'a list" assume "length t = length m0"
    then show "t[y * w + x := v y x] ! (y * w + x) = v y x" using assms(4) by simp
  qed simp_all
next
  fix y' and s :: "'a list"
  assume "y' \<in> set ys" "y' \<noteq> y"
  show "fold (\<lambda>x m. m[y' * w + x := v y' x]) xs s ! (y * w + x) = s ! (y * w + x)"
  proof (intro fold_keeps)
    fix x' and t :: "'a list"
    assume "x' \<in> set xs"
    then have "y' * w + x' \<noteq> y * w + x"
      using grid_index_inj [of x' w x y' y] assms(2,3) \<open>y' \<noteq> y\<close> by auto
    then show "t[y' * w + x' := v y' x'] ! (y * w + x) = t ! (y * w + x)" by simp
  qed
qed

lemma length_gaussianBlur: "length (gaussianBlur pixels width height) = length pixels"
  unfolding gaussianBlur_def Let_def case_prod_unfold
  by (simp only: paint_length length_replicate)

lemma length_sobelWithGradient:
  "length (sobelWithGradient pixels width height) = width * height"
  unfolding sobelWithGradient_def Let_def by (simp only: cells_length length_replicate)

text \<open>The rounded sums of an interior pixel, written out.\<close>

lemma gradient_sums_float64_interior:
  fixes x y w h :: nat
  assumes "1 \<le> x" "x + 1 < w" "1 \<le> y" "y + 1 < h" "length pixels = w * h * 4"
    and "length gx = 9" "length gy = 9"
  shows "gradient_sums_float64 pixels w gx gy y x =
     (Some (float64_convolve3 (spec_gray_mean pixels w) gx x y),
      Some (float64_convolve3 (spec_gray_mean pixels w) gy x y))"
proof -
  note nb = neighbour_gray [OF assms(1-5)]
  have g: "mean_gray pixels (nat ((int y + - 1) * int w + (int x + - 1)) * 4)
             = Some (spec_gray_mean pixels w (x - 1) (y - 1))"
      "mean_gray pixels (nat ((int y + - 1) * int w + (int x + 0)) * 4)
             = Some (spec_gray_mean pixels w x (y - 1))"
      "mean_gray pixels (nat ((int y + - 1) * int w + (int x + 1)) * 4)
             = Some (spec_gray_mean pixels w (x + 1) (y - 1))"
      "mean_gray pixels (nat ((int y + 0) * int w + (int x + - 1)) * 4)
             = Some (spec_gray_mean pixels w (x - 1) y)"
      "mean_gray pixels (nat ((int y + 0) * int w + (int x + 0)) * 4)
             = Some (spec_gray_mean pixels w x y)"
      "mean_gray pixels (nat ((int y + 0) * int w + (int x + 1)) * 4)
             = Some (spec_gray_mean pixels w (x + 1) y)"
      "mean_gray pixels (nat ((int y + 1) * int w + (int x + - 1)) * 4)
             = Some (spec_gray_mean pixels w (x - 1) (y + 1))"
      "mean_gray pixels (nat ((int y + 1) * int w + (int x + 0)) * 4)
             = Some (spec_gray_mean pixels w x (y + 1))"
      "mean_gray pixels (nat ((int y + 1) * int w + (int x + 1)) * 4)
             = Some (spec_gray_mean pixels w (x + 1) (y + 1))"
    using nb [of 0 0] nb [of 0 1] nb [of 0 2] nb [of 1 0] nb [of 1 1] nb [of 1 2]
      nb [of 2 0] nb [of 2 1] nb [of 2 2]
    by simp_all
  show ?thesis
    unfolding gradient_sums_float64_def float64_convolve3_def
    by (simp only: fold_simps g Let_def prod.case id_apply comp_apply)
       (simp add: coeff_def nan_add_def nan_mul_def rounded_def assms(6,7)
          numeral_2_eq_2 [symmetric])
qed

lemma magnitude_float64_Some:
  "magnitude_float64 (Some a, Some b) =
     Some (float64 (sqrt (float64 (float64 (a * a) + float64 (b * b)))))"
  by (simp add: magnitude_float64_def nan_add_def nan_mul_def rounded_def)

lemma sobelWithGradient_interior:
  fixes x y width height :: nat
  assumes "1 \<le> x" "x + 1 < width" "1 \<le> y" "y + 1 < height"
    and "length pixels = width * height * 4"
  shows "sobelWithGradient pixels width height ! (y * width + x) =
     Some (float32 (float64_gradient_magnitude (spec_gray_mean pixels width) sobel_gx sobel_gy x y))"
proof -
  have xy: "x < width" "y < height" using assms(2,4) by simp_all
  have inb: "y * width + x < length (replicate (width * height) (Some (0::real)))"
    using grid_index_bound [OF xy] by simp
  have rows: "y \<in> set [1..<height - 1]" and cols: "x \<in> set [1..<width - 1]"
    using assms(1-4) by (simp_all add: interior_rows)
  have edge: "\<And>x'. x' \<in> set [1..<width - 1] \<Longrightarrow> x' < width" by auto
  have k: "length sobel_gx = 9" "length sobel_gy = 9"
    by (simp_all add: sobel_gx_def sobel_gy_def)
  have "sobelWithGradient pixels width height ! (y * width + x)
      = map_option float32 (magnitude_float64 (gradient_sums_float64 pixels width sobel_gx sobel_gy y x))"
    unfolding sobelWithGradient_def Let_def
    by (simp only: cells_hit [OF rows cols edge inb])
  then show ?thesis
    by (simp add: gradient_sums_float64_interior [OF assms(1-5) k] magnitude_float64_Some
        float64_gradient_magnitude_def Let_def)
qed

lemma sobelWithGradient_border:
  fixes x y width height :: nat
  assumes "x < width" "y < height"
    and "\<not> (1 \<le> x \<and> x + 1 < width \<and> 1 \<le> y \<and> y + 1 < height)"
  shows "sobelWithGradient pixels width height ! (y * width + x) = Some 0"
proof -
  have out: "\<not> (y \<in> set [1..<height - 1] \<and> x \<in> set [1..<width - 1])"
    using assms(3) unfolding interior_rows by blast
  have edge: "\<And>x'. x' \<in> set [1..<width - 1] \<Longrightarrow> x' < width" by auto
  have inb: "y * width + x < width * height"
    using grid_index_bound [OF assms(1,2)] .
  show ?thesis
    unfolding sobelWithGradient_def Let_def
    using inb by (simp only: cells_miss [OF assms(1) edge out]) simp
qed

text \<open>The classification loop of \<open>canny\<close>, for any magnitude array.\<close>

lemma canny_loop_pixel:
  assumes "p < length magnitude" "p * 4 + 3 < n" "j < 4"
  shows "fold (\<lambda>i result.
            let mag = magnitude ! i in
            if exceeds mag highThreshold
            then result[i * 4 := 255, i * 4 + 1 := 255, i * 4 + 2 := 255, i * 4 + 3 := 255]
            else if exceeds mag lowThreshold
            then result[i * 4 := 128, i * 4 + 1 := 128, i * 4 + 2 := 128, i * 4 + 3 := 255]
            else result)
          [0..<length magnitude] (replicate n (0::nat)) ! (p * 4 + j)
       = (if exceeds (magnitude ! p) highThreshold then 255
          else if exceeds (magnitude ! p) lowThreshold then [128, 128, 128, 255] ! j
          else 0)"
  (is "fold ?f _ _ ! _ = _")
proof -
  have len: "length (?f i s) = length s" for i s
    by (simp add: Let_def)
  have others: "?f i s ! (p * 4 + j) = s ! (p * 4 + j)" if "i \<noteq> p" for i and s :: "nat list"
  proof -
    have "p * 4 + j < i * 4 \<or> i * 4 + 3 < p * 4 + j"
      using that assms(3) by (intro pixel_cells_apart) simp_all
    then show ?thesis by (auto simp: Let_def)
  qed
  have p: "p \<in> set [0..<length magnitude]" using assms(1) by simp
  have j: "j = 0 \<or> j = 1 \<or> j = 2 \<or> j = 3" using assms(3) by auto
  consider (strong) "exceeds (magnitude ! p) highThreshold"
    | (weak) "\<not> exceeds (magnitude ! p) highThreshold" "exceeds (magnitude ! p) lowThreshold"
    | (none) "\<not> exceeds (magnitude ! p) highThreshold" "\<not> exceeds (magnitude ! p) lowThreshold"
    by blast
  then show ?thesis
  proof cases
    case strong
    have "fold ?f [0..<length magnitude] (replicate n 0) ! (p * 4 + j) = 255"
    proof (rule fold_sets [OF p, where l = n])
      fix s :: "nat list" assume "length s = n"
      then show "?f p s ! (p * 4 + j) = 255"
        using strong assms(2) j by (auto simp: Let_def nth_list_update)
    qed (simp_all add: len others del: replicate_eq_replicate)
    then show ?thesis using strong by simp
  next
    case weak
    have "fold ?f [0..<length magnitude] (replicate n 0) ! (p * 4 + j) = [128, 128, 128, 255] ! j"
    proof (rule fold_sets [OF p, where l = n])
      fix s :: "nat list" assume "length s = n"
      then show "?f p s ! (p * 4 + j) = [128, 128, 128, 255] ! j"
        using weak assms(2) j by (auto simp: Let_def nth_list_update)
    qed (simp_all add: len others)
    then show ?thesis using weak by simp
  next
    case none
    have "fold ?f [0..<length magnitude] (replicate n 0) ! (p * 4 + j)
        = replicate n 0 ! (p * 4 + j)"
    proof (rule fold_keeps)
      fix i and s :: "nat list"
      show "?f i s ! (p * 4 + j) = s ! (p * 4 + j)"
        using none others [of i s] by (cases "i = p") (simp_all add: Let_def)
    qed
    then show ?thesis using none assms(2,3) by simp
  qed
qed

subsection \<open>Canny: the classification of a pixel\<close>

lemma blurred_edge3x3:
  "gaussianBlur edge3x3 3 3 =
     [0, 0, 0, 255,  10, 0, 0, 255,  20, 0, 0, 255,
      0, 0, 0, 255,  10, 0, 0, 255,  20, 0, 0, 255,
      0, 0, 0, 255,  10, 0, 0, 255,  20, 0, 0, 255]"
  by code_simp

lemma canny_magnitude:
  fixes x y width height :: nat
  assumes "length pixels = width * height * 4" "x < width" "y < height"
  shows "sobelWithGradient (gaussianBlur pixels width height) width height ! (y * width + x) =
     Some (if 1 \<le> x \<and> x + 1 < width \<and> 1 \<le> y \<and> y + 1 < height
           then float32 (float64_gradient_magnitude
                  (spec_gray_mean (gaussianBlur pixels width height) width) sobel_gx sobel_gy x y)
           else 0)"
proof (cases "1 \<le> x \<and> x + 1 < width \<and> 1 \<le> y \<and> y + 1 < height")
  case True
  have "length (gaussianBlur pixels width height) = width * height * 4"
    using assms(1) by (simp add: length_gaussianBlur)
  then show ?thesis
    using sobelWithGradient_interior [of x width y height "gaussianBlur pixels width height"] True
    by simp
next
  case False
  show ?thesis
    unfolding if_not_P [OF False]
    by (rule sobelWithGradient_border [OF assms(2,3) False])
qed

lemma canny_body_pixel:
  fixes x y width height :: nat and lowThreshold highThreshold :: real
  assumes "length pixels = width * height * 4" "x < width" "y < height"
    and "sobelWithGradient (gaussianBlur pixels width height) width height ! (y * width + x) = Some m"
  shows "rgba (canny_body pixels width height lowThreshold highThreshold) (y * width + x) =
     (if highThreshold < m then (255, 255, 255, 255)
      else if lowThreshold < m then (128, 128, 128, 255) else (0, 0, 0, 0))"
proof -
  let ?magnitude = "sobelWithGradient (gaussianBlur pixels width height) width height"
  let ?p = "y * width + x"
  let ?out = "canny_body pixels width height lowThreshold highThreshold"
  have p: "?p < length ?magnitude"
    using grid_index_bound [OF assms(2,3)] by (simp add: length_sobelWithGradient)
  have inb: "?p * 4 + 3 < length pixels"
    using pixel_in_buffer [OF assms(2,3,1), of 3] by simp
  have byte: "?out ! (?p * 4 + j) =
      (if highThreshold < m then 255
       else if lowThreshold < m then [128, 128, 128, 255] ! j else 0)"
    if "j < 4" for j
    using canny_loop_pixel [OF p inb that, of highThreshold lowThreshold]
    unfolding canny_body_def Let_def assms(4) by (simp add: exceeds_def)
  show ?thesis
    using byte [of 0] byte [of 1] byte [of 2] byte [of 3]
    by (simp add: rgba_def)
qed

text \<open>
  C4 (amended). For a well-formed buffer and any two thresholds, \<open>canny\<close> classifies each
  pixel by its entry \<open>m\<close> of the magnitude array. At an interior pixel \<open>m\<close> is the Sobel
  magnitude over the box-blurred buffer as the engine computes and stores it: every
  operation rounded to double precision, the result rounded to single precision. At a
  pixel of the first or last row or column \<open>m\<close> is 0. Then \<open>m > high\<close> gives (255, 255, 255)
  with alpha 255; \<open>low < m \<le> high\<close> gives (128, 128, 128) with alpha 255; \<open>m \<le> low\<close>
  together with \<open>m \<le> high\<close> leaves the pixel at the zeros the output was allocated with,
  alpha included.
\<close>

theorem canny_classification:
  fixes x y width height :: nat and lowThreshold highThreshold :: real
  assumes "length pixels = width * height * 4" "x < width" "y < height"
  shows "\<exists>m out.
       sobelWithGradient (gaussianBlur pixels width height) width height ! (y * width + x) = Some m
     \<and> m = (if 1 \<le> x \<and> x + 1 < width \<and> 1 \<le> y \<and> y + 1 < height
            then float32 (float64_gradient_magnitude
                   (spec_gray_mean (gaussianBlur pixels width height) width) sobel_gx sobel_gy x y)
            else 0)
     \<and> canny (Some pixels) (Some width) (Some height) lowThreshold highThreshold = Inr out
     \<and> (highThreshold < m \<longrightarrow> rgba out (y * width + x) = (255, 255, 255, 255))
     \<and> (lowThreshold < m \<and> m \<le> highThreshold \<longrightarrow> rgba out (y * width + x) = (128, 128, 128, 255))
     \<and> (m \<le> lowThreshold \<and> m \<le> highThreshold \<longrightarrow> rgba out (y * width + x) = (0, 0, 0, 0))"
proof -
  let ?m = "if 1 \<le> x \<and> x + 1 < width \<and> 1 \<le> y \<and> y + 1 < height
            then float32 (float64_gradient_magnitude
                   (spec_gray_mean (gaussianBlur pixels width height) width) sobel_gx sobel_gy x y)
            else 0"
  let ?out = "canny_body pixels width height lowThreshold highThreshold"
  have mag: "sobelWithGradient (gaussianBlur pixels width height) width height ! (y * width + x)
      = Some ?m"
    by (rule canny_magnitude [OF assms])
  have px: "rgba ?out (y * width + x) =
     (if highThreshold < ?m then (255, 255, 255, 255)
      else if lowThreshold < ?m then (128, 128, 128, 255) else (0, 0, 0, 0))"
    by (rule canny_body_pixel [OF assms mag])
  have cases: "(highThreshold < ?m \<longrightarrow> rgba ?out (y * width + x) = (255, 255, 255, 255))
     \<and> (lowThreshold < ?m \<and> ?m \<le> highThreshold \<longrightarrow> rgba ?out (y * width + x) = (128, 128, 128, 255))
     \<and> (?m \<le> lowThreshold \<and> ?m \<le> highThreshold \<longrightarrow> rgba ?out (y * width + x) = (0, 0, 0, 0))"
    unfolding px by auto
  have run: "canny (Some pixels) (Some width) (Some height) lowThreshold highThreshold = Inr ?out"
    by (simp add: canny_def)
  show ?thesis
    using mag run cases by blast
qed

text \<open>
  The magnitude at the centre of the 3x3 example. The blurred red channel is 0, 10, 20 along
  each row, the grey values are 0, \<open>10 / 3\<close> and \<open>20 / 3\<close> rounded to doubles, the running
  sum of the horizontal kernel ends at the double \<open>26.666666666666668\<close>, the vertical one at
  0, and the \<open>Float32Array\<close> keeps \<open>13981013 / 2^19 = 26.66666603...\<close>, below \<open>80 / 3\<close>.
\<close>

lemma float64_third:
  "float64 (10 / 3) = 7505999378950827 / 2251799813685248"
  "float64 (20 / 3) = 7505999378950827 / 1125899906842624"
proof -
  have "float64 (10 / 3) =
     of_int (round_ties_even ((10 / 3) / 2 powi (1 - 52))) * 2 powi (1 - 52)"
    by (rule float64_eval) simp_all
  also have "\<dots> = 7505999378950827 / 2251799813685248"
    by (simp add: round_ties_even_def power_int_minus)
  finally show "float64 (10 / 3) = 7505999378950827 / 2251799813685248" .
  have "float64 (20 / 3) =
     of_int (round_ties_even ((20 / 3) / 2 powi (2 - 52))) * 2 powi (2 - 52)"
    by (rule float64_eval) simp_all
  also have "\<dots> = 7505999378950827 / 1125899906842624"
    by (simp add: round_ties_even_def power_int_minus)
  finally show "float64 (20 / 3) = 7505999378950827 / 1125899906842624" .
qed

lemma float64_kept:
  "float64 (7505999378950827 / 1125899906842624) = 7505999378950827 / 1125899906842624"
  "float64 (7505999378950827 / 562949953421312) = 7505999378950827 / 562949953421312"
  "float64 (- (7505999378950827 / 1125899906842624)) = - (7505999378950827 / 1125899906842624)"
  "float64 (- (7505999378950827 / 562949953421312)) = - (7505999378950827 / 562949953421312)"
  "float64 20 = 20"
  "float64 (6254999482459023 / 8796093022208) = 6254999482459023 / 8796093022208"
proof -
  show "float64 (7505999378950827 / 1125899906842624) = 7505999378950827 / 1125899906842624"
    by (rule float64_exact [of _ 7505999378950827 "- 50"]) (simp_all add: power_int_minus)
  show "float64 (7505999378950827 / 562949953421312) = 7505999378950827 / 562949953421312"
    by (rule float64_exact [of _ 7505999378950827 "- 49"]) (simp_all add: power_int_minus)
  show "float64 (- (7505999378950827 / 1125899906842624)) = - (7505999378950827 / 1125899906842624)"
    by (rule float64_exact [of _ "- 7505999378950827" "- 50"]) (simp_all add: power_int_minus)
  show "float64 (- (7505999378950827 / 562949953421312)) = - (7505999378950827 / 562949953421312)"
    by (rule float64_exact [of _ "- 7505999378950827" "- 49"]) (simp_all add: power_int_minus)
  show "float64 20 = 20"
    by (rule float64_exact [of _ 20 0]) simp_all
  show "float64 (6254999482459023 / 8796093022208) = 6254999482459023 / 8796093022208"
    by (rule float64_exact [of _ 6254999482459023 "- 43"]) (simp_all add: power_int_minus)
qed

lemma float64_running_sum:
  "float64 (22517998136852481 / 1125899906842624) = 20"
  "float64 (30023997515803307 / 1125899906842624) = 7505999378950827 / 281474976710656"
proof -
  have "float64 (22517998136852481 / 1125899906842624) =
     of_int (round_ties_even ((22517998136852481 / 1125899906842624) / 2 powi (4 - 52)))
       * 2 powi (4 - 52)"
    by (rule float64_eval) simp_all
  also have "\<dots> = 20"
    by (simp add: round_ties_even_def power_int_minus)
  finally show "float64 (22517998136852481 / 1125899906842624) = 20" .
  have "float64 (30023997515803307 / 1125899906842624) =
     of_int (round_ties_even ((30023997515803307 / 1125899906842624) / 2 powi (4 - 52)))
       * 2 powi (4 - 52)"
    by (rule float64_eval) simp_all
  also have "\<dots> = 7505999378950827 / 281474976710656"
    by (simp add: round_ties_even_def power_int_minus)
  finally show "float64 (30023997515803307 / 1125899906842624)
      = 7505999378950827 / 281474976710656" .
qed

lemma float64_square:
  "float64 (56340026676810200626075283983929 / 79228162514264337593543950336)
     = 6254999482459023 / 8796093022208"
proof -
  let ?q = "56340026676810200626075283983929 / 79228162514264337593543950336 :: real"
  have "float64 ?q = of_int (round_ties_even (?q / 2 powi (9 - 52))) * 2 powi (9 - 52)"
    by (rule float64_eval) simp_all
  also have "\<dots> = 6254999482459023 / 8796093022208"
    by (simp add: round_ties_even_def power_int_minus)
  finally show ?thesis .
qed

lemma float_round_near:
  assumes "2 powi e \<le> \<bar>x\<bar>" "\<bar>x\<bar> < 2 powi (e + 1)" "emin \<le> e"
    and "\<bar>x / 2 powi (e - int p + 1) - of_int n\<bar> < 1 / 2"
  shows "float_round p emin x = of_int n * 2 powi (e - int p + 1)"
  using float_round_eval [OF assms(1-3), of p] round_ties_even_near [OF assms(4)] by simp

lemma sqrt_between:
  assumes "0 \<le> a" "a\<^sup>2 < q" "q < b\<^sup>2" "0 \<le> b"
  shows "a < sqrt q \<and> sqrt q < b"
  using assms by (simp add: real_less_rsqrt real_less_lsqrt)

lemma float64_root:
  "float64 (sqrt (6254999482459023 / 8796093022208)) = 7505999378950827 / 281474976710656"
proof -
  let ?q = "6254999482459023 / 8796093022208 :: real"
  have r: "16 < sqrt ?q \<and> sqrt ?q < 32"
    by (rule sqrt_between) simp_all
  have n: "(7505999378950827 - 1 / 2) / 281474976710656 < sqrt ?q
         \<and> sqrt ?q < (7505999378950827 + 1 / 2) / 281474976710656"
    by (rule sqrt_between) (simp_all add: power2_eq_square)
  have "float64 (sqrt ?q) = of_int 7505999378950827 * 2 powi (4 - int 53 + 1)"
    unfolding float64_def
  proof (rule float_round_near)
    show "2 powi 4 \<le> \<bar>sqrt ?q\<bar>" using r by simp
    show "\<bar>sqrt ?q\<bar> < 2 powi (4 + 1)" using r by simp
    show "\<bar>sqrt ?q / 2 powi (4 - int 53 + 1) - of_int 7505999378950827\<bar> < 1 / 2"
    proof -
      have "7505999378950827 - 1 / 2 < sqrt ?q * 281474976710656"
           "sqrt ?q * 281474976710656 < 7505999378950827 + 1 / 2"
        using n by (simp_all add: field_simps)
      then have "\<bar>sqrt ?q * 281474976710656 - 7505999378950827\<bar> < 1 / 2"
        unfolding abs_less_iff by linarith
      then show ?thesis by (simp add: power_int_minus)
    qed
  qed simp
  then show ?thesis by (simp add: power_int_minus)
qed

lemma float32_stored:
  "float32 (7505999378950827 / 281474976710656) = 13981013 / 524288"
proof -
  have "float32 (7505999378950827 / 281474976710656) =
     of_int (round_ties_even ((7505999378950827 / 281474976710656) / 2 powi (4 - 23)))
       * 2 powi (4 - 23)"
    by (rule float32_eval) simp_all
  also have "\<dots> = 13981013 / 524288"
    by (simp add: round_ties_even_def power_int_minus)
  finally show ?thesis .
qed

lemma blurred_edge3x3_magnitude:
  "sobelWithGradient (gaussianBlur edge3x3 3 3) 3 3 ! (1 * 3 + 1) = Some (13981013 / 524288)"
proof -
  have len: "length edge3x3 = 3 * 3 * 4" by (simp add: edge3x3_def)
  have gx: "float64_convolve3 (spec_gray_mean (gaussianBlur edge3x3 3 3) 3) sobel_gx 1 1
      = 7505999378950827 / 281474976710656"
    unfolding blurred_edge3x3
    by (simp add: float64_convolve3_def spec_gray_mean_def sobel_gx_def
        float64_third float64_kept float64_running_sum)
  have gy: "float64_convolve3 (spec_gray_mean (gaussianBlur edge3x3 3 3) 3) sobel_gy 1 1 = 0"
    unfolding blurred_edge3x3
    by (simp add: float64_convolve3_def spec_gray_mean_def sobel_gy_def
        float64_third float64_kept float64_running_sum)
  have m: "float64_gradient_magnitude (spec_gray_mean (gaussianBlur edge3x3 3 3) 3)
          sobel_gx sobel_gy 1 1 = 7505999378950827 / 281474976710656"
    unfolding float64_gradient_magnitude_def Let_def gx gy
    by (simp add: float64_square float64_kept float64_root)
  have "sobelWithGradient (gaussianBlur edge3x3 3 3) 3 3 ! (1 * 3 + 1) =
     Some (float32 (float64_gradient_magnitude (spec_gray_mean (gaussianBlur edge3x3 3 3) 3)
             sobel_gx sobel_gy 1 1))"
    using canny_magnitude [OF len, of 1 1] by simp
  then show ?thesis
    unfolding m float32_stored .
qed

text \<open>
  C4 as stated fails when the low threshold is above the high one: the centre of the 3x3
  example has the magnitude \<open>26.66666603...\<close>, which is at most \<open>low = 30\<close>, and \<open>canny\<close>
  with \<open>high = 20\<close> returns it white and opaque, not zero.
\<close>

theorem canny_thresholds_swapped:
  "length edge3x3 = 3 * 3 * 4
   \<and> sobelWithGradient (gaussianBlur edge3x3 3 3) 3 3 ! (1 * 3 + 1) = Some (13981013 / 524288)
   \<and> (13981013 / 524288 :: real) \<le> 30
   \<and> canny (Some edge3x3) (Some 3) (Some 3) 30 20 = Inr (canny_body edge3x3 3 3 30 20)
   \<and> rgba (canny_body edge3x3 3 3 30 20) (1 * 3 + 1) = (255, 255, 255, 255)"
proof -
  have len: "length edge3x3 = 3 * 3 * 4" by (simp add: edge3x3_def)
  have one: "(1::nat) < 3" by simp
  have "rgba (canny_body edge3x3 3 3 30 20) (1 * 3 + 1) =
     (if (20::real) < 13981013 / 524288 then (255, 255, 255, 255)
      else if (30::real) < 13981013 / 524288 then (128, 128, 128, 255) else (0, 0, 0, 0))"
    by (rule canny_body_pixel [OF len one one blurred_edge3x3_magnitude])
  then have "rgba (canny_body edge3x3 3 3 30 20) (1 * 3 + 1) = (255, 255, 255, 255)"
    by simp
  then show ?thesis
    using len blurred_edge3x3_magnitude by (simp add: canny_def)
qed

text \<open>
  An instance where the single precision of the magnitude array decides: the high threshold
  \<open>26.6666665\<close> lies between the stored magnitude and \<open>80 / 3\<close>, and the centre of the 3x3
  example comes out mid-grey.
\<close>

theorem canny_classification_witness:
  "length edge3x3 = 3 * 3 * 4 \<and> (1::nat) < 3
   \<and> (\<exists>m out.
       sobelWithGradient (gaussianBlur edge3x3 3 3) 3 3 ! (1 * 3 + 1) = Some m
     \<and> m = 13981013 / 524288
     \<and> canny (Some edge3x3) (Some 3) (Some 3) 10 (53333333 / 2000000) = Inr out
     \<and> (10::real) < m \<and> m \<le> 53333333 / 2000000 \<and> 53333333 / 2000000 < (80 / 3 :: real)
     \<and> rgba out (1 * 3 + 1) = (128, 128, 128, 255))"
proof -
  have len: "length edge3x3 = 3 * 3 * 4" by (simp add: edge3x3_def)
  have one: "(1::nat) < 3" by simp
  obtain m out where r:
      "sobelWithGradient (gaussianBlur edge3x3 3 3) 3 3 ! (1 * 3 + 1) = Some m"
      "canny (Some edge3x3) (Some 3) (Some 3) 10 (53333333 / 2000000) = Inr out"
      "10 < m \<and> m \<le> 53333333 / 2000000 \<longrightarrow> rgba out (1 * 3 + 1) = (128, 128, 128, 255)"
    using canny_classification [OF len one one, of 10 "53333333 / 2000000"] by blast
  have m: "m = 13981013 / 524288" using r(1) blurred_edge3x3_magnitude by simp
  then have b: "(10::real) < m" "m \<le> 53333333 / 2000000" by simp_all
  have t: "53333333 / 2000000 < (80 / 3 :: real)" by simp
  have "rgba out (1 * 3 + 1) = (128, 128, 128, 255)" using r(3) b by blast
  then show ?thesis using len one r(1,2) m b t by blast
qed

end
